theory Spec2Isabelle
  imports Complex_Main "HOL-Library.Multiset" "HOL-Library.Sublist"
begin

section \<open>JavaScript values used by the dashboard\<close>

subsection \<open>Numbers\<close>

text \<open>
  A JavaScript number is a binary64 value. The code under study only ever subtracts two
  numbers to obtain the sign of a comparison, multiplies two numbers, tests for \<open>NaN\<close>
  and prints with \<open>toFixed\<close>. A finite binary64 value is a rational, so a number is
  modelled as \<open>NaN\<close>, an infinity, or a rational; the two zeros are identified (no
  operation below distinguishes them).
\<close>

datatype jsnum = NaN | NegInf | Fin rat | PosInf

definition isNaN :: "jsnum \<Rightarrow> bool" where
  "isNaN v = (v = NaN)"

text \<open>
  Subtraction. For two binary64 values the rounded difference has the sign of the exact
  difference and is zero only when both are equal (gradual underflow), and an overflow
  keeps the sign; the only reader of a difference below is the sort, which looks at its
  sign, so the exact difference of the finite case stands for the rounded one.
\<close>

fun js_sub :: "jsnum \<Rightarrow> jsnum \<Rightarrow> jsnum" where
  "js_sub NaN _ = NaN"
| "js_sub _ NaN = NaN"
| "js_sub PosInf PosInf = NaN"
| "js_sub NegInf NegInf = NaN"
| "js_sub PosInf _ = PosInf"
| "js_sub NegInf _ = NegInf"
| "js_sub (Fin a) PosInf = NegInf"
| "js_sub (Fin a) NegInf = PosInf"
| "js_sub (Fin a) (Fin b) = Fin (a - b)"

fun js_neg :: "jsnum \<Rightarrow> jsnum" where
  "js_neg NaN = NaN"
| "js_neg NegInf = PosInf"
| "js_neg PosInf = NegInf"
| "js_neg (Fin a) = Fin (- a)"

text \<open>The relational operators: every comparison with \<open>NaN\<close> is false.\<close>

fun js_le :: "jsnum \<Rightarrow> jsnum \<Rightarrow> bool" where
  "js_le NaN _ = False"
| "js_le _ NaN = False"
| "js_le NegInf _ = True"
| "js_le _ PosInf = True"
| "js_le PosInf _ = False"
| "js_le _ NegInf = False"
| "js_le (Fin a) (Fin b) = (a \<le> b)"

definition js_ge :: "jsnum \<Rightarrow> jsnum \<Rightarrow> bool" where
  "js_ge a b = js_le b a"

fun js_lt0 :: "jsnum \<Rightarrow> bool" where
  "js_lt0 NegInf = True"
| "js_lt0 (Fin a) = (a < 0)"
| "js_lt0 _ = False"

fun js_gt0 :: "jsnum \<Rightarrow> bool" where
  "js_gt0 PosInf = True"
| "js_gt0 (Fin a) = (0 < a)"
| "js_gt0 _ = False"

subsection \<open>Strings\<close>

text \<open>
  A string is the list of its code units; the model covers the code units below 256
  (Latin-1), which is what \<open>char\<close> holds. In that range \<open>toLowerCase\<close> maps each
  code unit on its own: \<open>A\<close>..\<open>Z\<close> and \<open>U+00C0\<close>..\<open>U+00DE\<close> (without the
  multiplication sign \<open>U+00D7\<close>) move up by 32, which sets bit 5.
\<close>

definition isUpperCase :: "char \<Rightarrow> bool" where
  "isUpperCase c =
     (let n = (of_char c :: nat)
      in (65 \<le> n \<and> n \<le> 90) \<or> (192 \<le> n \<and> n \<le> 222 \<and> n \<noteq> 215))"

definition toLowerChar :: "char \<Rightarrow> char" where
  "toLowerChar c =
     (if isUpperCase c
      then (case c of Char b0 b1 b2 b3 b4 b5 b6 b7 \<Rightarrow> Char b0 b1 b2 b3 b4 True b6 b7)
      else c)"

definition toLowerCase :: "string \<Rightarrow> string" where
  "toLowerCase s = map toLowerChar s"

text \<open>\<open>s.startsWith(q)\<close> and \<open>s.includes(q)\<close>: a scan of \<open>s\<close> from the left.\<close>

fun startsWith :: "string \<Rightarrow> string \<Rightarrow> bool" where
  "startsWith s [] = True"
| "startsWith [] (q # qs) = False"
| "startsWith (c # cs) (q # qs) = (c = q \<and> startsWith cs qs)"

fun str_includes :: "string \<Rightarrow> string \<Rightarrow> bool" where
  "str_includes [] q = (q = [])"
| "str_includes (c # cs) q = (startsWith (c # cs) q \<or> str_includes cs q)"

text \<open>JavaScript truthiness of a string: every string but the empty one.\<close>

definition truthy :: "string \<Rightarrow> bool" where
  "truthy s = (s \<noteq> [])"

definition isDigit :: "char \<Rightarrow> bool" where
  "isDigit c = (let n = (of_char c :: nat) in 48 \<le> n \<and> n \<le> 57)"

definition digitVal :: "char \<Rightarrow> nat" where
  "digitVal c = of_char c - 48"

definition digitsVal :: "string \<Rightarrow> nat" where
  "digitsVal ds = foldl (\<lambda>acc c. 10 * acc + digitVal c) 0 ds"

text \<open>
  The white space and line terminators that \<open>parseFloat\<close> skips, below 256: TAB, LF,
  VT, FF, CR, SP and NBSP.
\<close>

definition isWhiteSpace :: "char \<Rightarrow> bool" where
  "isWhiteSpace c = ((of_char c :: nat) \<in> {9, 10, 11, 12, 13, 32, 160})"

section \<open>The data model\<close>

text \<open>The \<open>Transaction\<close> type of \<open>lib/types\<close>; an optional field is an \<open>option\<close>.\<close>

datatype TxStatus = Pending | Confirmed | Failed

fun status_str :: "TxStatus \<Rightarrow> string" where
  "status_str Pending = ''pending''"
| "status_str Confirmed = ''confirmed''"
| "status_str Failed = ''failed''"

record Transaction =
  tx_id :: string
  hash :: string
  fromAddress :: string
  toAddress :: string
  amount :: string
  status :: TxStatus
  gasLimit :: "string option"
  gasPrice :: "string option"
  timestamp :: string

section \<open>The engine and the host\<close>

subsection \<open>The environment\<close>

text \<open>
  What the language leaves to the engine and the host is a parameter of the model:
  \<^item> \<open>roundNumber\<close>: the binary64 value of an exact rational (round to nearest,
    overflow to an infinity);
  \<^item> \<open>dateParse\<close>: the time value of \<open>new Date(s)\<close>, in milliseconds since the
    epoch, \<open>NaN\<close> for an invalid date (the formats accepted beyond the ISO format
    are the engine's own);
  \<^item> \<open>endOfLocalDay\<close>: the time value after \<open>setHours(23, 59, 59, 999)\<close>, which
    depends on the local time zone;
  \<^item> \<open>shortestDigits\<close>: for a finite value of magnitude at least \<open>10^21\<close>, the
    digits \<open>s\<close> and the exponent \<open>n\<close> that \<open>Number::toString\<close> prints;
  \<^item> \<open>engineOrder\<close>: the order in which the engine's sort leaves an array when the
    comparator is not consistent, which the language leaves to the engine.
\<close>

record js_env =
  roundNumber :: "rat \<Rightarrow> jsnum"
  dateParse :: "string \<Rightarrow> jsnum"
  endOfLocalDay :: "rat \<Rightarrow> jsnum"
  shortestDigits :: "rat \<Rightarrow> nat \<times> nat"
  engineOrder :: "(Transaction \<Rightarrow> Transaction \<Rightarrow> jsnum) \<Rightarrow> Transaction list \<Rightarrow> Transaction list"

subsection \<open>parseFloat\<close>

text \<open>
  \<open>parseFloat\<close> trims leading white space and reads the longest prefix that is a
  \<open>StrDecimalLiteral\<close>: an optional sign, then \<open>Infinity\<close>, or digits with an
  optional fraction and an optional exponent; \<open>NaN\<close> when there is no such prefix.
\<close>

text \<open>The exponent part: \<open>e\<close> or \<open>E\<close>, an optional sign and at least one digit.\<close>

definition exponentPart :: "string \<Rightarrow> int" where
  "exponentPart r =
     (case r of
        [] \<Rightarrow> 0
      | c # r1 \<Rightarrow>
          if c = CHR ''e'' \<or> c = CHR ''E''
          then (case r1 of
                  [] \<Rightarrow> 0
                | d # r2 \<Rightarrow>
                    if d = CHR ''+'' then int (digitsVal (takeWhile isDigit r2))
                    else if d = CHR ''-'' then - int (digitsVal (takeWhile isDigit r2))
                    else int (digitsVal (takeWhile isDigit r1)))
          else 0)"

definition pow10 :: "int \<Rightarrow> rat" where
  "pow10 e = (if 0 \<le> e then 10 ^ nat e else 1 / 10 ^ nat (- e))"

text \<open>The unsigned literal: \<open>None\<close> when no prefix is a literal.\<close>

definition unsignedLiteral :: "string \<Rightarrow> jsnum option" where
  "unsignedLiteral u =
     (if startsWith u ''Infinity'' then Some PosInf
      else
        let ip = takeWhile isDigit u;
            r1 = dropWhile isDigit u;
            fp = (case r1 of [] \<Rightarrow> [] | c # r \<Rightarrow> if c = CHR ''.'' then takeWhile isDigit r else []);
            r2 = (case r1 of [] \<Rightarrow> [] | c # r \<Rightarrow> if c = CHR ''.'' then dropWhile isDigit r else r1)
        in if ip = [] \<and> fp = [] then None
           else Some (Fin ((of_nat (digitsVal ip) + of_nat (digitsVal fp) / 10 ^ length fp)
                            * pow10 (exponentPart r2))))"

definition parseFloat :: "js_env \<Rightarrow> string \<Rightarrow> jsnum" where
  "parseFloat E s =
     (let t = dropWhile isWhiteSpace s;
          neg = (case t of [] \<Rightarrow> False | c # _ \<Rightarrow> c = CHR ''-'');
          u = (case t of [] \<Rightarrow> [] | c # r \<Rightarrow> if c = CHR ''+'' \<or> c = CHR ''-'' then r else t)
      in case unsignedLiteral u of
           None \<Rightarrow> NaN
         | Some PosInf \<Rightarrow> if neg then NegInf else PosInf
         | Some (Fin v) \<Rightarrow> roundNumber E (if neg then - v else v)
         | Some _ \<Rightarrow> NaN)"

section \<open>The state of the transactions page\<close>

datatype SortField = SortDate | SortAmount | SortStatus

datatype SortOrder = Asc | Desc

text \<open>
  The state cells of \<open>TransactionsPage\<close> (one field per \<open>useState\<close>), and
  \<open>debounceTimer\<close>: whether the 300 ms timeout of the search effect is pending.
\<close>

record PageState =
  transactions :: "Transaction list"
  loading :: bool
  error :: "string option"
  statusFilter :: string
  dateFrom :: string
  dateTo :: string
  searchQuery :: string
  debouncedSearch :: string
  sortField :: SortField
  sortOrder :: SortOrder
  currentPage :: int
  debounceTimer :: bool

definition itemsPerPage :: int where
  "itemsPerPage = 15"

section \<open>The query pipeline of the transactions page\<close>

subsection \<open>Array.prototype.sort\<close>

text \<open>
  \<open>SortCompare\<close> calls the comparator and reads a \<open>NaN\<close> result as \<open>+0\<close>.
\<close>

definition SortCompare :: "('a \<Rightarrow> 'a \<Rightarrow> jsnum) \<Rightarrow> 'a \<Rightarrow> 'a \<Rightarrow> jsnum" where
  "SortCompare comparefn x y = (let v = comparefn x y in if isNaN v then Fin 0 else v)"

text \<open>
  The stable insertion sort: an element moves behind a later one only when the
  comparator puts it strictly after.
\<close>

fun insert_sorted :: "('a \<Rightarrow> 'a \<Rightarrow> jsnum) \<Rightarrow> 'a \<Rightarrow> 'a list \<Rightarrow> 'a list" where
  "insert_sorted comparefn x [] = [x]"
| "insert_sorted comparefn x (y # ys) =
     (if js_gt0 (SortCompare comparefn x y) then y # insert_sorted comparefn x ys
      else x # y # ys)"

definition insertion_sort :: "('a \<Rightarrow> 'a \<Rightarrow> jsnum) \<Rightarrow> 'a list \<Rightarrow> 'a list" where
  "insertion_sort comparefn xs = foldr (insert_sorted comparefn) xs []"

text \<open>
  A comparator is consistent for the elements of an array when no comparison of two of
  them is \<open>NaN\<close>, every element compares equal to itself, equality is symmetric and
  transitive, \<open>a < b\<close> gives \<open>b > a\<close>, and \<open><\<close> and \<open>>\<close> are transitive.
\<close>

definition consistentOn :: "('a \<Rightarrow> 'a \<Rightarrow> jsnum) \<Rightarrow> 'a list \<Rightarrow> bool" where
  "consistentOn comparefn xs =
     (list_all (\<lambda>a. list_all (\<lambda>b. \<not> isNaN (comparefn a b)) xs) xs
      \<and> list_all (\<lambda>a. comparefn a a = Fin 0) xs
      \<and> list_all (\<lambda>a. list_all (\<lambda>b.
            (if comparefn a b = Fin 0 then comparefn b a = Fin 0 else True)
            \<and> (if js_lt0 (comparefn a b) then js_gt0 (comparefn b a) else True)) xs) xs
      \<and> list_all (\<lambda>a. list_all (\<lambda>b. list_all (\<lambda>c.
            (if comparefn a b = Fin 0 \<and> comparefn b c = Fin 0 then comparefn a c = Fin 0
             else True)
            \<and> (if js_lt0 (comparefn a b) \<and> js_lt0 (comparefn b c) then js_lt0 (comparefn a c)
               else True)
            \<and> (if js_gt0 (comparefn a b) \<and> js_gt0 (comparefn b c) then js_gt0 (comparefn a c)
               else True)) xs) xs) xs)"

text \<open>
  \<open>result.sort(comparefn)\<close>. The sort is stable, and with a consistent comparator the
  language fixes the result: the elements in the order of the comparator, equal ones in
  the order of the input, which is what the insertion sort returns. With a comparator
  that is not consistent the language leaves the order to the engine, and the result is
  \<open>engineOrder\<close>. Every engine returns a permutation of the input; an
  \<open>engineOrder\<close> that returns another list stands for no engine and is not read.
\<close>

definition array_sort ::
  "js_env \<Rightarrow> (Transaction \<Rightarrow> Transaction \<Rightarrow> jsnum) \<Rightarrow> Transaction list \<Rightarrow> Transaction list" where
  "array_sort E comparefn xs =
     (if consistentOn comparefn xs then insertion_sort comparefn xs
      else if mset (engineOrder E comparefn xs) = mset xs then engineOrder E comparefn xs
      else insertion_sort comparefn xs)"

subsection \<open>Filtering\<close>

text \<open>\<open>toDate.setHours(23, 59, 59, 999)\<close>: an invalid date stays invalid.\<close>

definition setHoursEndOfDay :: "js_env \<Rightarrow> jsnum \<Rightarrow> jsnum" where
  "setHoursEndOfDay E d = (case d of Fin t \<Rightarrow> endOfLocalDay E t | _ \<Rightarrow> NaN)"

definition statusStage :: "string \<Rightarrow> Transaction list \<Rightarrow> Transaction list" where
  "statusStage sf result =
     (if sf \<noteq> ''all'' then filter (\<lambda>tx. status_str (status tx) = sf) result else result)"

definition dateFromStage :: "js_env \<Rightarrow> string \<Rightarrow> Transaction list \<Rightarrow> Transaction list" where
  "dateFromStage E df result =
     (if truthy df
      then (let fromDate = dateParse E df
            in filter (\<lambda>tx. js_ge (dateParse E (timestamp tx)) fromDate) result)
      else result)"

definition dateToStage :: "js_env \<Rightarrow> string \<Rightarrow> Transaction list \<Rightarrow> Transaction list" where
  "dateToStage E dt result =
     (if truthy dt
      then (let toDate = setHoursEndOfDay E (dateParse E dt)
            in filter (\<lambda>tx. js_le (dateParse E (timestamp tx)) toDate) result)
      else result)"

definition searchStage :: "string \<Rightarrow> Transaction list \<Rightarrow> Transaction list" where
  "searchStage ds result =
     (if truthy ds
      then (let query = toLowerCase ds
            in filter (\<lambda>tx. str_includes (toLowerCase (hash tx)) query
                            \<or> str_includes (toLowerCase (fromAddress tx)) query
                            \<or> str_includes (toLowerCase (toAddress tx)) query) result)
      else result)"

text \<open>The list the sort receives: the four filters, in the order of the source.\<close>

definition filteredTransactions :: "js_env \<Rightarrow> PageState \<Rightarrow> Transaction list" where
  "filteredTransactions E s =
     searchStage (debouncedSearch s)
       (dateToStage E (dateTo s)
         (dateFromStage E (dateFrom s)
           (statusStage (statusFilter s) (transactions s))))"

subsection \<open>Sorting\<close>

text \<open>
  \<open>a.status.localeCompare(b.status)\<close> on the three status words, which collate
  alphabetically: \<open>confirmed\<close>, \<open>failed\<close>, \<open>pending\<close>.
\<close>

fun statusRank :: "TxStatus \<Rightarrow> int" where
  "statusRank Confirmed = 0"
| "statusRank Failed = 1"
| "statusRank Pending = 2"

definition localeCompare :: "TxStatus \<Rightarrow> TxStatus \<Rightarrow> jsnum" where
  "localeCompare a b = Fin (of_int (sgn (statusRank a - statusRank b)))"

text \<open>The variable \<open>comparison\<close> of the comparator, and the comparator itself.\<close>

definition comparison :: "js_env \<Rightarrow> SortField \<Rightarrow> Transaction \<Rightarrow> Transaction \<Rightarrow> jsnum" where
  "comparison E f a b =
     (case f of
        SortDate \<Rightarrow> js_sub (dateParse E (timestamp a)) (dateParse E (timestamp b))
      | SortAmount \<Rightarrow> js_sub (parseFloat E (amount a)) (parseFloat E (amount b))
      | SortStatus \<Rightarrow> localeCompare (status a) (status b))"

definition compareFn ::
  "js_env \<Rightarrow> SortField \<Rightarrow> SortOrder \<Rightarrow> Transaction \<Rightarrow> Transaction \<Rightarrow> jsnum" where
  "compareFn E f ord a b =
     (if ord = Asc then comparison E f a b else js_neg (comparison E f a b))"

definition filteredAndSortedTransactions :: "js_env \<Rightarrow> PageState \<Rightarrow> Transaction list" where
  "filteredAndSortedTransactions E s =
     array_sort E (compareFn E (sortField s) (sortOrder s)) (filteredTransactions E s)"

text \<open>
  The keys of a list parse when, for the sort by date, every timestamp is a date, and for
  the sort by amount, every amount is a finite number; the status always is a key.
\<close>

definition isFinite :: "jsnum \<Rightarrow> bool" where
  "isFinite v = (case v of Fin _ \<Rightarrow> True | _ \<Rightarrow> False)"

definition keysParse :: "js_env \<Rightarrow> SortField \<Rightarrow> Transaction list \<Rightarrow> bool" where
  "keysParse E f xs =
     (case f of
        SortDate \<Rightarrow> list_all (\<lambda>t. isFinite (dateParse E (timestamp t))) xs
      | SortAmount \<Rightarrow> list_all (\<lambda>t. isFinite (parseFloat E (amount t))) xs
      | SortStatus \<Rightarrow> True)"

subsection \<open>Pagination\<close>

text \<open>
  \<open>xs.slice(start, end)\<close>: a negative index counts from the end, and both indices
  are clamped to the array, so the call never fails.
\<close>

definition js_slice :: "'a list \<Rightarrow> int \<Rightarrow> int \<Rightarrow> 'a list" where
  "js_slice xs start stop =
     (let len = int (length xs);
          k = (if start < 0 then max (len + start) 0 else min start len);
          fin = (if stop < 0 then max (len + stop) 0 else min stop len)
      in take (nat (fin - k)) (drop (nat k) xs))"

text \<open>
  The body of \<open>paginatedTransactions\<close>, \<open>totalPages\<close>, \<open>showingFrom\<close> and
  \<open>showingTo\<close> for a page size; the component fixes the size to \<open>itemsPerPage\<close>.
  \<open>pageCount\<close> is \<open>Math.ceil(n / size)\<close> for a positive size (a division by
  zero is not JavaScript's in the model, and does not occur: the size is 15).
\<close>

definition pageSlice :: "int \<Rightarrow> int \<Rightarrow> 'a list \<Rightarrow> 'a list" where
  "pageSlice psize page xs =
     (let start = (page - 1) * psize; stop = start + psize in js_slice xs start stop)"

definition pageCount :: "int \<Rightarrow> nat \<Rightarrow> int" where
  "pageCount psize n = \<lceil>(of_nat n :: rat) / of_int psize\<rceil>"

definition paginatedTransactions :: "js_env \<Rightarrow> PageState \<Rightarrow> Transaction list" where
  "paginatedTransactions E s =
     pageSlice itemsPerPage (currentPage s) (filteredAndSortedTransactions E s)"

definition totalPages :: "js_env \<Rightarrow> PageState \<Rightarrow> int" where
  "totalPages E s = pageCount itemsPerPage (length (filteredAndSortedTransactions E s))"

definition showingFrom :: "js_env \<Rightarrow> PageState \<Rightarrow> int" where
  "showingFrom E s =
     (if length (filteredAndSortedTransactions E s) = 0 then 0
      else (currentPage s - 1) * itemsPerPage + 1)"

definition showingTo :: "js_env \<Rightarrow> PageState \<Rightarrow> int" where
  "showingTo E s =
     min (currentPage s * itemsPerPage) (int (length (filteredAndSortedTransactions E s)))"

section \<open>The handlers of the transactions page\<close>

text \<open>
  Each state setter of the component, as the source calls it. \<open>setSearchQuery\<close> with a
  new value re-runs the search effect, which drops the pending timeout and starts one;
  \<open>debounceTimeout\<close> is the callback of that timeout.
\<close>

definition setStatusFilter :: "string \<Rightarrow> PageState \<Rightarrow> PageState" where
  "setStatusFilter v s = s\<lparr>statusFilter := v\<rparr>"

definition setDateFrom :: "string \<Rightarrow> PageState \<Rightarrow> PageState" where
  "setDateFrom v s = s\<lparr>dateFrom := v\<rparr>"

definition setDateTo :: "string \<Rightarrow> PageState \<Rightarrow> PageState" where
  "setDateTo v s = s\<lparr>dateTo := v\<rparr>"

definition setCurrentPage :: "int \<Rightarrow> PageState \<Rightarrow> PageState" where
  "setCurrentPage p s = s\<lparr>currentPage := p\<rparr>"

definition setSearchQuery :: "string \<Rightarrow> PageState \<Rightarrow> PageState" where
  "setSearchQuery q s =
     (if q = searchQuery s then s else s\<lparr>searchQuery := q, debounceTimer := True\<rparr>)"

definition debounceTimeout :: "PageState \<Rightarrow> PageState" where
  "debounceTimeout s =
     (if debounceTimer s
      then setCurrentPage 1 (s\<lparr>debouncedSearch := searchQuery s, debounceTimer := False\<rparr>)
      else s)"

definition clearFilters :: "PageState \<Rightarrow> PageState" where
  "clearFilters s =
     setCurrentPage 1
       (setSearchQuery [] (setDateTo [] (setDateFrom [] (setStatusFilter ''all'' s))))"

definition handleSort :: "SortField \<Rightarrow> PageState \<Rightarrow> PageState" where
  "handleSort field s =
     setCurrentPage 1
       (if sortField s = field
        then s\<lparr>sortOrder := (if sortOrder s = Asc then Desc else Asc)\<rparr>
        else s\<lparr>sortField := field, sortOrder := Desc\<rparr>)"

text \<open>
  The pagination controls are rendered when the list is loaded and not empty. The
  number on the \<open>i\<close>-th page button (\<open>i\<close> from 0) follows the source.
\<close>

definition controlsShown :: "js_env \<Rightarrow> PageState \<Rightarrow> bool" where
  "controlsShown E s =
     (\<not> loading s \<and> error s = None \<and> 0 < length (filteredAndSortedTransactions E s))"

definition pageNum :: "js_env \<Rightarrow> PageState \<Rightarrow> int \<Rightarrow> int" where
  "pageNum E s i =
     (if totalPages E s \<le> 5 then i + 1
      else if currentPage s \<le> 3 then i + 1
      else if totalPages E s - 2 \<le> currentPage s then totalPages E s - 4 + i
      else currentPage s - 2 + i)"

datatype Event =
    SelectStatus string
  | ChangeDateFrom string
  | ChangeDateTo string
  | TypeSearch string
  | DebounceTimeout
  | ClickClearFilters
  | ClickSort SortField
  | ClickPrevious
  | ClickNext
  | ClickPageButton int
  | FetchStarted
  | FetchSucceeded "Transaction list"
  | FetchFailed

fun step :: "js_env \<Rightarrow> Event \<Rightarrow> PageState \<Rightarrow> PageState" where
  "step E (SelectStatus v) s = setStatusFilter v s"
| "step E (ChangeDateFrom v) s = setDateFrom v s"
| "step E (ChangeDateTo v) s = setDateTo v s"
| "step E (TypeSearch q) s = setSearchQuery q s"
| "step E DebounceTimeout s = debounceTimeout s"
| "step E ClickClearFilters s = clearFilters s"
| "step E (ClickSort field) s =
     (if controlsShown E s then handleSort field s else s)"
| "step E ClickPrevious s =
     (if controlsShown E s \<and> currentPage s \<noteq> 1 then setCurrentPage (currentPage s - 1) s
      else s)"
| "step E ClickNext s =
     (if controlsShown E s \<and> currentPage s \<noteq> totalPages E s
      then setCurrentPage (currentPage s + 1) s
      else s)"
| "step E (ClickPageButton i) s =
     (if controlsShown E s \<and> 0 \<le> i \<and> i < min (totalPages E s) 5
      then setCurrentPage (pageNum E s i) s
      else s)"
| "step E FetchStarted s = s\<lparr>loading := True, error := None\<rparr>"
| "step E (FetchSucceeded txs) s = s\<lparr>transactions := txs, loading := False\<rparr>"
| "step E FetchFailed s =
     s\<lparr>error := Some ''Failed to load transactions. Please try again.'', loading := False\<rparr>"

text \<open>The state after the first render: the search effect has started its timeout.\<close>

definition initialState :: PageState where
  "initialState =
     \<lparr>transactions = [], loading = True, error = None, statusFilter = ''all'',
      dateFrom = [], dateTo = [], searchQuery = [], debouncedSearch = [],
      sortField = SortDate, sortOrder = Desc, currentPage = 1, debounceTimer = True\<rparr>"

fun run :: "js_env \<Rightarrow> Event list \<Rightarrow> PageState \<Rightarrow> PageState" where
  "run E [] s = s"
| "run E (ev # evs) s = run E evs (step E ev s)"

section \<open>CSV export\<close>

text \<open>The double quote is \<open>CHR 0x22\<close> and the line feed \<open>CHR 0x0A\<close>.\<close>

fun join :: "string \<Rightarrow> string list \<Rightarrow> string" where
  "join sep [] = []"
| "join sep [x] = x"
| "join sep (x # y # ys) = x @ sep @ join sep (y # ys)"

definition replaceQuotes :: "string \<Rightarrow> string" where
  "replaceQuotes v = concat (map (\<lambda>c. if c = CHR 0x22 then [CHR 0x22, CHR 0x22] else [c]) v)"

text \<open>\<open>escapeCsv\<close>; its argument is \<open>None\<close> for \<open>null\<close> or \<open>undefined\<close>.\<close>

definition escapeCsv :: "string option \<Rightarrow> string" where
  "escapeCsv v =
     (case v of
        None \<Rightarrow> []
      | Some v \<Rightarrow>
          let needsQuotes = list_ex (\<lambda>c. c = CHR 0x22 \<or> c = CHR '','' \<or> c = CHR 0x0A) v;
              escaped = replaceQuotes v
          in if needsQuotes then [CHR 0x22] @ escaped @ [CHR 0x22] else escaped)"

text \<open>\<open>x ?? ''\<close> on an optional string.\<close>

definition orEmpty :: "string option \<Rightarrow> string" where
  "orEmpty x = (case x of None \<Rightarrow> [] | Some v \<Rightarrow> v)"

definition csvRow :: "Transaction \<Rightarrow> string" where
  "csvRow r =
     (let vals = map (\<lambda>v. escapeCsv (Some v))
            [tx_id r, hash r, fromAddress r, toAddress r, amount r, status_str (status r),
             orEmpty (gasLimit r), orEmpty (gasPrice r), timestamp r]
      in join '','' vals)"

definition transactionsToCsv :: "Transaction list \<Rightarrow> string" where
  "transactionsToCsv rows =
     (let headers = [''id'', ''hash'', ''fromAddress'', ''toAddress'', ''amount'', ''status'',
                     ''gasLimit'', ''gasPrice'', ''timestamp''];
          lines = foldl (\<lambda>lines r. lines @ [csvRow r]) [join '','' headers] rows
      in join [CHR 0x0A] lines)"

section \<open>Theme storage\<close>

text \<open>
  The host of the theme functions: whether \<open>window\<close> and \<open>document\<close> are defined,
  the local storage (a map from keys to values, which takes every write), and the class
  list of the root element.
\<close>

datatype Theme = Light | Dark

fun theme_str :: "Theme \<Rightarrow> string" where
  "theme_str Light = ''light''"
| "theme_str Dark = ''dark''"

record Host =
  hasWindow :: bool
  hasDocument :: bool
  localStorage :: "string \<rightharpoonup> string"
  rootClassList :: "string set"

definition THEME_KEY :: string where
  "THEME_KEY = ''theme''"

definition getStoredTheme :: "Host \<Rightarrow> Theme option" where
  "getStoredTheme h =
     (if \<not> hasWindow h then None
      else (let v = localStorage h THEME_KEY
            in if v = Some ''dark'' then Some Dark
               else if v = Some ''light'' then Some Light
               else None))"

definition applyTheme :: "Theme \<Rightarrow> Host \<Rightarrow> Host" where
  "applyTheme theme h =
     (if \<not> hasDocument h then h
      else h\<lparr>rootClassList :=
                 (if theme = Dark then insert ''dark'' (rootClassList h)
                  else rootClassList h - {''dark''}),
              localStorage := (localStorage h)(THEME_KEY \<mapsto> theme_str theme)\<rparr>)"

definition initTheme :: "Host \<Rightarrow> Host" where
  "initTheme h =
     (if \<not> hasWindow h then h
      else (case getStoredTheme h of Some stored \<Rightarrow> applyTheme stored h | None \<Rightarrow> h))"

section \<open>The fee of the transaction details\<close>

subsection \<open>Multiplication and toFixed\<close>

definition infTimes :: "rat \<Rightarrow> jsnum" where
  "infTimes a = (if a = 0 then NaN else if 0 < a then PosInf else NegInf)"

fun js_mul :: "js_env \<Rightarrow> jsnum \<Rightarrow> jsnum \<Rightarrow> jsnum" where
  "js_mul E NaN _ = NaN"
| "js_mul E _ NaN = NaN"
| "js_mul E (Fin a) (Fin b) = roundNumber E (a * b)"
| "js_mul E (Fin a) PosInf = infTimes a"
| "js_mul E (Fin a) NegInf = infTimes (- a)"
| "js_mul E PosInf (Fin b) = infTimes b"
| "js_mul E NegInf (Fin b) = infTimes (- b)"
| "js_mul E PosInf PosInf = PosInf"
| "js_mul E NegInf NegInf = PosInf"
| "js_mul E PosInf NegInf = NegInf"
| "js_mul E NegInf PosInf = NegInf"

definition digitChar :: "nat \<Rightarrow> char" where
  "digitChar d = ''0123456789'' ! (d mod 10)"

fun natDigits :: "nat \<Rightarrow> string" where
  "natDigits n =
     (if n < 10 then [digitChar n] else natDigits (n div 10) @ [digitChar (n mod 10)])"

declare natDigits.simps [simp del]

text \<open>
  \<open>Number::toString\<close> of a finite value of magnitude at least \<open>10^21\<close>: the digits,
  a point after the first when there are several, and the exponent.
\<close>

definition exponentForm :: "js_env \<Rightarrow> rat \<Rightarrow> string" where
  "exponentForm E x =
     (let ds = natDigits (fst (shortestDigits E x));
          n = snd (shortestDigits E x)
      in (if length ds = 1 then ds else hd ds # CHR ''.'' # tl ds) @ ''e+'' @ natDigits (n - 1))"

text \<open>
  \<open>x.toFixed(f)\<close>: a value that is not finite prints as \<open>Number::toString\<close> does; a
  magnitude of \<open>10^21\<close> or more prints in exponent form; otherwise \<open>n\<close> is the integer
  nearest to \<open>x * 10^f\<close> (the larger of two), printed with \<open>f\<close> digits after the point.
\<close>

definition toFixed :: "js_env \<Rightarrow> nat \<Rightarrow> jsnum \<Rightarrow> string" where
  "toFixed E f v =
     (case v of
        NaN \<Rightarrow> ''NaN''
      | PosInf \<Rightarrow> ''Infinity''
      | NegInf \<Rightarrow> ''-Infinity''
      | Fin x0 \<Rightarrow>
          let s = (if x0 < 0 then ''-'' else []);
              x = \<bar>x0\<bar>
          in if 10 ^ 21 \<le> x then s @ exponentForm E x
             else
               let n = nat \<lfloor>x * 10 ^ f + 1 / 2\<rfloor>;
                   m = natDigits n;
                   m1 = (if length m \<le> f then replicate (f + 1 - length m) (CHR ''0'') @ m else m);
                   k = length m1
               in if f \<noteq> 0 then s @ take (k - f) m1 @ ''.'' @ drop (k - f) m1 else s @ m)"

subsection \<open>calculateFee\<close>

definition calculateFee :: "js_env \<Rightarrow> Transaction \<Rightarrow> string" where
  "calculateFee E transaction =
     (case gasLimit transaction of
        None \<Rightarrow> ''N/A''
      | Some gl \<Rightarrow>
          (case gasPrice transaction of
             None \<Rightarrow> ''N/A''
           | Some gp \<Rightarrow>
               if \<not> truthy gl \<or> \<not> truthy gp then ''N/A''
               else
                 let fee = js_mul E (parseFloat E gl) (parseFloat E gp)
                 in if isNaN fee then ''N/A'' else toFixed E 8 fee))"

section \<open>An environment: exact arithmetic, UTC, ISO dates, the sort of V8\<close>

text \<open>
  One environment, used to run the model on concrete inputs: every value is taken as
  representable, the local time zone is UTC, \<open>new Date\<close> accepts the UTC forms of
  the date-time string format (\<open>YYYY-MM-DD\<close>, \<open>YYYY-MM-DDTHH:mm:ssZ\<close> and
  \<open>YYYY-MM-DDTHH:mm:ss.sssZ\<close>) and nothing else, and the engine sorts as V8 does.
\<close>

subsection \<open>The sort of V8 on a short array\<close>

text \<open>
  V8 sorts an array of fewer than 64 elements as one run. \<open>CountAndMakeRun\<close> finds
  the run at the start of the array: it is descending when the second element compares
  below the first, and it ends before the first element that breaks the direction; a
  descending run is reversed. \<open>BinaryInsertionSort\<close> then inserts every later element
  into the sorted part before it, at the place a binary search finds. (On a longer array
  V8 merges several runs; the function below is V8's for the short ones.)
\<close>

fun runTail :: "bool \<Rightarrow> ('a \<Rightarrow> 'a \<Rightarrow> jsnum) \<Rightarrow> 'a \<Rightarrow> 'a list \<Rightarrow> nat" where
  "runTail isDescending comparefn previousElement [] = 0"
| "runTail isDescending comparefn previousElement (currentElement # rest) =
     (let order = SortCompare comparefn currentElement previousElement
      in if isDescending \<and> \<not> js_lt0 order then 0
         else if \<not> isDescending \<and> js_lt0 order then 0
         else Suc (runTail isDescending comparefn currentElement rest))"

definition runIsDescending :: "('a \<Rightarrow> 'a \<Rightarrow> jsnum) \<Rightarrow> 'a list \<Rightarrow> bool" where
  "runIsDescending comparefn xs =
     (case xs of
        elementHigh # elementLow # rest \<Rightarrow> js_lt0 (SortCompare comparefn elementLow elementHigh)
      | _ \<Rightarrow> False)"

definition runLength :: "('a \<Rightarrow> 'a \<Rightarrow> jsnum) \<Rightarrow> 'a list \<Rightarrow> nat" where
  "runLength comparefn xs =
     (case xs of
        elementHigh # elementLow # rest \<Rightarrow>
          2 + runTail (runIsDescending comparefn xs) comparefn elementLow rest
      | _ \<Rightarrow> length xs)"

definition countAndMakeRun :: "('a \<Rightarrow> 'a \<Rightarrow> jsnum) \<Rightarrow> 'a list \<Rightarrow> 'a list" where
  "countAndMakeRun comparefn xs =
     (if runIsDescending comparefn xs
      then rev (take (runLength comparefn xs) xs) @ drop (runLength comparefn xs) xs
      else xs)"

function binarySearch ::
  "('a \<Rightarrow> 'a \<Rightarrow> jsnum) \<Rightarrow> 'a \<Rightarrow> 'a list \<Rightarrow> nat \<Rightarrow> nat \<Rightarrow> nat" where
  "binarySearch comparefn pivot workArray left right =
     (if left < right
      then (let mid = left + (right - left) div 2;
                order = SortCompare comparefn pivot (workArray ! mid)
            in if js_lt0 order then binarySearch comparefn pivot workArray left mid
               else binarySearch comparefn pivot workArray (mid + 1) right)
      else left)"
  by pat_completeness auto
termination
  by (relation "measure (\<lambda>(comparefn, pivot, workArray, left, right). right - left)") auto

declare binarySearch.simps [simp del]

text \<open>The element at \<open>start\<close> moves to its place in the sorted part before it.\<close>

definition binaryInsert :: "('a \<Rightarrow> 'a \<Rightarrow> jsnum) \<Rightarrow> 'a list \<Rightarrow> nat \<Rightarrow> 'a list" where
  "binaryInsert comparefn workArray start =
     (let pivot = workArray ! start;
          left = binarySearch comparefn pivot workArray 0 start
      in take left workArray @ [pivot] @ drop left (take start workArray)
         @ drop (Suc start) workArray)"

text \<open>The loop of \<open>BinaryInsertionSort\<close>: \<open>n\<close> elements from \<open>start\<close> on.\<close>

fun binaryInsertionSort :: "('a \<Rightarrow> 'a \<Rightarrow> jsnum) \<Rightarrow> nat \<Rightarrow> 'a list \<Rightarrow> nat \<Rightarrow> 'a list" where
  "binaryInsertionSort comparefn 0 workArray start = workArray"
| "binaryInsertionSort comparefn (Suc n) workArray start =
     binaryInsertionSort comparefn n (binaryInsert comparefn workArray start) (Suc start)"

definition v8ShortSort :: "('a \<Rightarrow> 'a \<Rightarrow> jsnum) \<Rightarrow> 'a list \<Rightarrow> 'a list" where
  "v8ShortSort comparefn xs =
     (if length xs < 2 then xs
      else binaryInsertionSort comparefn (length xs - runLength comparefn xs)
             (countAndMakeRun comparefn xs) (runLength comparefn xs))"

subsection \<open>Dates and digits\<close>

definition isLeapYear :: "int \<Rightarrow> bool" where
  "isLeapYear y = (y mod 400 = 0 \<or> (y mod 4 = 0 \<and> y mod 100 \<noteq> 0))"

definition daysInMonth :: "int \<Rightarrow> int \<Rightarrow> int" where
  "daysInMonth y m =
     (if m = 2 then (if isLeapYear y then 29 else 28)
      else if m = 4 \<or> m = 6 \<or> m = 9 \<or> m = 11 then 30 else 31)"

text \<open>The number of days from 1970-01-01 to a date of the proleptic Gregorian calendar.\<close>

definition daysFromCivil :: "int \<Rightarrow> int \<Rightarrow> int \<Rightarrow> int" where
  "daysFromCivil y m d =
     (let y1 = (if m \<le> 2 then y - 1 else y);
          era = y1 div 400;
          yoe = y1 - era * 400;
          mp = (if 2 < m then m - 3 else m + 9);
          doy = (153 * mp + 2) div 5 + d - 1;
          doe = yoe * 365 + yoe div 4 - yoe div 100 + doy
      in era * 146097 + doe - 719468)"

definition fieldVal :: "string \<Rightarrow> nat \<Rightarrow> nat \<Rightarrow> int option" where
  "fieldVal s pos len =
     (let f = take len (drop pos s)
      in if length f = len \<and> list_all isDigit f then Some (int (digitsVal f)) else None)"

definition isoDatePart :: "string \<Rightarrow> int option" where
  "isoDatePart s =
     (if length s = 10 \<and> s ! 4 = CHR ''-'' \<and> s ! 7 = CHR ''-''
      then (case (fieldVal s 0 4, fieldVal s 5 2, fieldVal s 8 2) of
              (Some y, Some m, Some d) \<Rightarrow>
                if 1 \<le> m \<and> m \<le> 12 \<and> 1 \<le> d \<and> d \<le> daysInMonth y m
                then Some (daysFromCivil y m d) else None
            | _ \<Rightarrow> None)
      else None)"

definition isoTimePart :: "string \<Rightarrow> int option" where
  "isoTimePart s =
     (if (length s = 8 \<or> (length s = 12 \<and> s ! 8 = CHR ''.''))
         \<and> s ! 2 = CHR '':'' \<and> s ! 5 = CHR '':''
      then (case (fieldVal s 0 2, fieldVal s 3 2, fieldVal s 6 2,
                  if length s = 12 then fieldVal s 9 3 else Some 0) of
              (Some h, Some mi, Some sec, Some ms) \<Rightarrow>
                if h \<le> 23 \<and> mi \<le> 59 \<and> sec \<le> 59
                then Some (((h * 60 + mi) * 60 + sec) * 1000 + ms) else None
            | _ \<Rightarrow> None)
      else None)"

definition isoDateParse :: "string \<Rightarrow> jsnum" where
  "isoDateParse s =
     (if length s = 10
      then (case isoDatePart s of Some d \<Rightarrow> Fin (of_int (d * 86400000)) | None \<Rightarrow> NaN)
      else if 11 < length s \<and> s ! 10 = CHR ''T'' \<and> last s = CHR ''Z''
      then (case (isoDatePart (take 10 s), isoTimePart (butlast (drop 11 s))) of
              (Some d, Some t) \<Rightarrow> Fin (of_int (d * 86400000 + t))
            | _ \<Rightarrow> NaN)
      else NaN)"

definition utcEndOfDay :: "rat \<Rightarrow> jsnum" where
  "utcEndOfDay t = Fin (of_int (\<lfloor>t / 86400000\<rfloor> * 86400000 + 86399999))"

fun stripZeros :: "nat \<Rightarrow> nat" where
  "stripZeros n = (if n = 0 \<or> n mod 10 \<noteq> 0 then n else stripZeros (n div 10))"

declare stripZeros.simps [simp del]

definition exactDigits :: "rat \<Rightarrow> nat \<times> nat" where
  "exactDigits x = (stripZeros (nat \<lfloor>x\<rfloor>), length (natDigits (nat \<lfloor>x\<rfloor>)))"

definition utcEnv :: js_env where
  "utcEnv = \<lparr>roundNumber = Fin, dateParse = isoDateParse, endOfLocalDay = utcEndOfDay,
             shortestDigits = exactDigits, engineOrder = v8ShortSort\<rparr>"

section \<open>The amount comparison with a zero default\<close>

text \<open>
  The comparison of amounts as the specification words it, for comparison with the
  source's: an amount that does not parse counts as zero.
\<close>

definition amountOrZero :: "js_env \<Rightarrow> string \<Rightarrow> jsnum" where
  "amountOrZero E a = (let v = parseFloat E a in if isNaN v then Fin 0 else v)"

definition comparisonWithZeroDefault :: "js_env \<Rightarrow> Transaction \<Rightarrow> Transaction \<Rightarrow> jsnum" where
  "comparisonWithZeroDefault E a b =
     js_sub (amountOrZero E (amount a)) (amountOrZero E (amount b))"

section \<open>Example data\<close>

text \<open>
  Transactions in the style of the repository's tests, a state that has loaded a list,
  and lists long enough to fill several pages.
\<close>

definition tx1 :: Transaction where
  "tx1 = \<lparr>tx_id = ''1'', hash = ''0xABCdef123'', fromAddress = ''0xfrom1'', toAddress = ''0xto1'',
          amount = ''1.5'', status = Confirmed, gasLimit = Some ''21000'',
          gasPrice = Some ''0.00000002'', timestamp = ''2024-01-15T10:00:00Z''\<rparr>"

definition tx2 :: Transaction where
  "tx2 = \<lparr>tx_id = ''2'', hash = ''0xdead'', fromAddress = ''0xdead'', toAddress = ''0xdead'',
          amount = ''0.2'', status = Pending, gasLimit = None,
          gasPrice = None, timestamp = ''2024-01-15T11:00:00Z''\<rparr>"

definition tx3 :: Transaction where
  "tx3 = \<lparr>tx_id = ''3'', hash = ''0xbeef'', fromAddress = ''0xfrom3'', toAddress = ''0xto3'',
          amount = ''invalid'', status = Failed, gasLimit = Some ''Infinity'',
          gasPrice = Some ''1'', timestamp = ''invalid''\<rparr>"

definition loaded :: "Transaction list \<Rightarrow> PageState" where
  "loaded txs = initialState\<lparr>transactions := txs, loading := False, debounceTimer := False\<rparr>"

definition numbered :: "nat \<Rightarrow> Transaction" where
  "numbered i = tx1\<lparr>tx_id := natDigits i, status := (if even i then Pending else Confirmed)\<rparr>"

definition sixteen :: "Transaction list" where
  "sixteen = map numbered [1..<17]"

definition forty :: "Transaction list" where
  "forty = map numbered [1..<41]"

text \<open>
  Seven transactions named by their ids, with the amounts 0.1, 0.2, 3, \<open>invalid\<close>, 1,
  0 and 1: \<open>A\<close> and \<open>B\<close> have equal amounts.
\<close>

definition withAmount :: "string \<Rightarrow> string \<Rightarrow> Transaction" where
  "withAmount i a = tx1\<lparr>tx_id := i, amount := a\<rparr>"

definition seven :: "Transaction list" where
  "seven = [withAmount ''P'' ''0.1'', withAmount ''Q'' ''0.2'', withAmount ''X'' ''3'',
            withAmount ''N'' ''invalid'', withAmount ''A'' ''1'', withAmount ''C'' ''0'',
            withAmount ''B'' ''1'']"

text \<open>The state after loading forty transactions and clicking Next twice.\<close>

definition onPage3 :: PageState where
  "onPage3 = run utcEnv [FetchSucceeded forty, ClickNext, ClickNext] initialState"

definition server :: Host where
  "server = \<lparr>hasWindow = False, hasDocument = False, localStorage = Map.empty,
             rootClassList = {}\<rparr>"

definition browser :: Host where
  "browser = \<lparr>hasWindow = True, hasDocument = True, localStorage = Map.empty,
              rootClassList = {}\<rparr>"

section \<open>Facts about the model\<close>

subsection \<open>Evaluation\<close>

text \<open>The definitions that the simplifier unfolds to run the model on a concrete input.\<close>

lemmas parse_defs = parseFloat_def unsignedLiteral_def isWhiteSpace_def isDigit_def digitsVal_def
  digitVal_def exponentPart_def pow10_def

lemmas date_defs = isoDateParse_def isoDatePart_def isoTimePart_def fieldVal_def daysFromCivil_def
  daysInMonth_def isLeapYear_def utcEndOfDay_def isDigit_def digitsVal_def digitVal_def

lemmas string_defs = toLowerCase_def toLowerChar_def isUpperCase_def

subsection \<open>Pages\<close>

text \<open>
  For a page size of at least 1, \<open>Math.ceil(n / size)\<close> is the least number of pages
  that hold \<open>n\<close> items, and for a page from 1 on the slice is a \<open>take\<close> of a
  \<open>drop\<close>.
\<close>

lemma pageCount_le_iff: "1 \<le> ps \<Longrightarrow> pageCount ps n \<le> z \<longleftrightarrow> int n \<le> z * ps"
proof -
  assume ps: "1 \<le> ps"
  then have pos: "(0::rat) < of_int ps" by simp
  have "pageCount ps n \<le> z \<longleftrightarrow> (of_nat n :: rat) / of_int ps \<le> of_int z"
    by (simp add: pageCount_def ceiling_le_iff)
  also have "\<dots> \<longleftrightarrow> (of_nat n :: rat) \<le> of_int z * of_int ps"
    using pos by (simp add: pos_divide_le_eq)
  also have "\<dots> \<longleftrightarrow> (of_int (int n) :: rat) \<le> of_int (z * ps)"
    by simp
  also have "\<dots> \<longleftrightarrow> int n \<le> z * ps"
    by (simp only: of_int_le_iff)
  finally show ?thesis .
qed

lemma pageCount_nonneg: "0 \<le> pageCount 15 n"
proof -
  have "\<not> pageCount 15 n \<le> - 1"
    using pageCount_le_iff [of 15 n "- 1"] by simp
  then show ?thesis by simp
qed

lemma pageSlice_take_drop:
  assumes "1 \<le> ps" "1 \<le> page"
  shows "pageSlice ps page xs = take (nat ps) (drop (nat ((page - 1) * ps)) xs)"
proof -
  define start where "start = (page - 1) * ps"
  have s0: "0 \<le> start" using assms by (simp add: start_def)
  have "pageSlice ps page xs = js_slice xs start (start + ps)"
    by (simp add: pageSlice_def start_def Let_def)
  also have "\<dots> = take (nat ps) (drop (nat start) xs)"
  proof (cases "start \<le> int (length xs)")
    case True
    then show ?thesis using s0 assms(1)
      by (auto simp: js_slice_def Let_def min_def intro!: take_all)
  next
    case False
    then show ?thesis using s0 assms(1)
      by (auto simp: js_slice_def Let_def min_def)
  qed
  finally show ?thesis by (simp add: start_def)
qed

lemma concat_chunks: "concat (map (\<lambda>i. take k (drop (i * k) xs)) [0..<m]) = take (m * k) xs"
proof (induction m)
  case 0
  show ?case by simp
next
  case (Suc m)
  have "take (Suc m * k) xs = take (m * k + k) xs" by (simp add: add.commute)
  also have "\<dots> = take (m * k) xs @ take k (drop (m * k) xs)" by (rule take_add)
  finally show ?case using Suc.IH by simp
qed

lemma pages_cover:
  assumes ps: "1 \<le> ps"
  shows "concat (map (\<lambda>p. pageSlice ps (int p) xs) [1..<Suc (nat (pageCount ps (length xs)))]) = xs"
proof -
  define m where "m = nat (pageCount ps (length xs))"
  define k where "k = nat ps"
  have k: "int k = ps" using ps by (simp add: k_def)
  have "pageCount ps (length xs) \<le> int m"
    by (simp add: m_def)
  then have len: "length xs \<le> m * k"
    using pageCount_le_iff [OF ps, of "length xs" "int m"] k
    by (metis of_nat_le_iff of_nat_mult)
  have slice: "pageSlice ps (int (Suc i)) xs = take k (drop (i * k) xs)" for i
  proof -
    have "nat ((int (Suc i) - 1) * ps) = i * k"
      using k by (metis add_diff_cancel_left' nat_int of_nat_Suc of_nat_mult plus_1_eq_Suc of_nat_1 of_nat_add)
    then show ?thesis using pageSlice_take_drop [OF ps, of "int (Suc i)" xs] by (simp add: k_def)
  qed
  have "[1..<Suc m] = map Suc [0..<m]"
    by (simp add: map_Suc_upt)
  then have "concat (map (\<lambda>p. pageSlice ps (int p) xs) [1..<Suc m])
      = concat (map (\<lambda>i. take k (drop (i * k) xs)) [0..<m])"
    by (simp add: comp_def slice del: upt_Suc of_nat_Suc)
  also have "\<dots> = take (m * k) xs" by (rule concat_chunks)
  also have "\<dots> = xs" using len by simp
  finally show ?thesis by (simp add: m_def)
qed

lemma pageCount_15_16: "pageCount 15 16 = 2"
  by code_simp

lemma pageCount_7_16: "pageCount 7 16 = 3"
  by code_simp

lemma pageCount_15_40: "pageCount 15 40 = 3"
  by code_simp

lemma pageCount_15_20: "pageCount 15 20 = 2"
  by code_simp

lemma upt_1_3: "[Suc 0..<3] = [1, 2]" and upt_1_4: "[Suc 0..<4] = [1, 2, 3]"
  by code_simp+

subsection \<open>The insertion sort\<close>

text \<open>
  The insertion sort permutes its input. A set of elements of which none is put strictly
  after another keeps its order; when the comparator orders the elements, the result is
  ordered.
\<close>

lemma mset_insert_sorted: "mset (insert_sorted c x ys) = add_mset x (mset ys)"
  by (induction ys) simp_all

lemma mset_insertion_sort: "mset (insertion_sort c xs) = mset xs"
  by (induction xs) (simp_all add: insertion_sort_def mset_insert_sorted)

lemma length_insertion_sort: "length (insertion_sort c xs) = length xs"
proof -
  have "size (mset (insertion_sort c xs)) = size (mset xs)"
    by (simp only: mset_insertion_sort)
  then show ?thesis by simp
qed

lemma set_insertion_sort: "set (insertion_sort c xs) = set xs"
proof -
  have "set_mset (mset (insertion_sort c xs)) = set_mset (mset xs)"
    by (simp only: mset_insertion_sort)
  then show ?thesis by simp
qed


lemma filter_insert_sorted:
  assumes "\<And>y. y \<in> set ys \<Longrightarrow> P x \<Longrightarrow> P y \<Longrightarrow> \<not> js_gt0 (SortCompare c x y)"
  shows "filter P (insert_sorted c x ys) = (if P x then x # filter P ys else filter P ys)"
  using assms by (induction ys) auto

lemma filter_insertion_sort:
  assumes "\<And>x y. x \<in> set xs \<Longrightarrow> y \<in> set xs \<Longrightarrow> P x \<Longrightarrow> P y \<Longrightarrow> \<not> js_gt0 (SortCompare c x y)"
  shows "filter P (insertion_sort c xs) = filter P xs"
  using assms
proof (induction xs)
  case Nil
  show ?case by (simp add: insertion_sort_def)
next
  case (Cons x xs)
  have IH: "filter P (insertion_sort c xs) = filter P xs"
  proof (rule Cons.IH)
    show "\<not> js_gt0 (SortCompare c u v)" if "u \<in> set xs" "v \<in> set xs" "P u" "P v" for u v
      using Cons.prems [of u v] that by simp
  qed
  have "filter P (insert_sorted c x (insertion_sort c xs))
      = (if P x then x # filter P (insertion_sort c xs) else filter P (insertion_sort c xs))"
  proof (rule filter_insert_sorted)
    show "\<not> js_gt0 (SortCompare c x y)" if "y \<in> set (insertion_sort c xs)" "P x" "P y" for y
      using Cons.prems [of x y] that by (simp add: set_insertion_sort)
  qed
  then show ?case using IH by (simp add: insertion_sort_def)
qed



lemma insertion_sort_unchanged:
  assumes "\<And>x y. x \<in> set xs \<Longrightarrow> y \<in> set xs \<Longrightarrow> \<not> js_gt0 (SortCompare c x y)"
  shows "insertion_sort c xs = xs"
  using assms
proof (induction xs)
  case Nil
  show ?case by (simp add: insertion_sort_def)
next
  case (Cons x xs)
  have IH: "insertion_sort c xs = xs"
  proof (rule Cons.IH)
    show "\<not> js_gt0 (SortCompare c u v)" if "u \<in> set xs" "v \<in> set xs" for u v
      using Cons.prems [of u v] that by simp
  qed
  have "insert_sorted c x xs = x # xs"
  proof (cases xs)
    case Nil
    then show ?thesis by simp
  next
    case (Cons y ys)
    then have "\<not> js_gt0 (SortCompare c x y)"
      using Cons.prems [of x y] \<open>xs = y # ys\<close> by (simp add: Cons)
    then show ?thesis using Cons by simp
  qed
  then show ?case using IH by (simp add: insertion_sort_def)
qed

text \<open>
  Where the comparator orders the elements by a key, the insertion sort is the library's
  stable sort by that key, \<open>sort_key\<close>, which is the one list that is a permutation
  of the input, ordered and stable.
\<close>

lemma insert_sorted_insort_key:
  assumes "\<And>y. y \<in> set ys \<Longrightarrow> js_gt0 (SortCompare c x y) \<longleftrightarrow> k y < k x"
  shows "insert_sorted c x ys = insort_key k x ys"
  using assms by (induction ys) (auto simp: not_less)

lemma insertion_sort_sort_key:
  fixes k :: "'a \<Rightarrow> 'b::linorder"
  assumes "\<And>x y. x \<in> set xs \<Longrightarrow> y \<in> set xs \<Longrightarrow> js_gt0 (SortCompare c x y) \<longleftrightarrow> k y < k x"
  shows "insertion_sort c xs = sort_key k xs"
  using assms
proof (induction xs)
  case Nil
  show ?case by (simp add: insertion_sort_def)
next
  case (Cons x xs)
  have IH: "insertion_sort c xs = sort_key k xs"
  proof (rule Cons.IH)
    show "js_gt0 (SortCompare c u v) \<longleftrightarrow> k v < k u" if "u \<in> set xs" "v \<in> set xs" for u v
      using Cons.prems [of u v] that by simp
  qed
  have "insert_sorted c x (sort_key k xs) = insort_key k x (sort_key k xs)"
  proof (rule insert_sorted_insort_key)
    show "js_gt0 (SortCompare c x y) \<longleftrightarrow> k y < k x" if "y \<in> set (sort_key k xs)" for y
      using Cons.prems [of x y] that by simp
  qed
  then show ?case using IH by (simp add: insertion_sort_def)
qed

subsection \<open>Array.prototype.sort\<close>

text \<open>
  With a consistent comparator the sort is the insertion sort, whatever the engine; with
  any comparator it permutes its input. A comparator that is \<open>NaN\<close> on an element
  against itself is not consistent, and one that compares by a rational key is.
\<close>

lemma array_sort_consistent:
  "consistentOn c xs \<Longrightarrow> array_sort E c xs = insertion_sort c xs"
  by (simp add: array_sort_def)

lemma mset_array_sort: "mset (array_sort E c xs) = mset xs"
  by (simp add: array_sort_def mset_insertion_sort)

lemma length_array_sort: "length (array_sort E c xs) = length xs"
proof -
  have "size (mset (array_sort E c xs)) = size (mset xs)"
    by (simp only: mset_array_sort)
  then show ?thesis by simp
qed

lemma set_array_sort: "set (array_sort E c xs) = set xs"
proof -
  have "set_mset (mset (array_sort E c xs)) = set_mset (mset xs)"
    by (simp only: mset_array_sort)
  then show ?thesis by simp
qed

lemma not_consistent_NaN:
  "x \<in> set xs \<Longrightarrow> isNaN (c x x) \<Longrightarrow> \<not> consistentOn c xs"
  by (auto simp: consistentOn_def list_all_iff)

lemma consistentOn_keyed:
  fixes k :: "'a \<Rightarrow> rat"
  assumes eq: "\<And>x y. x \<in> set xs \<Longrightarrow> y \<in> set xs \<Longrightarrow> (c x y = Fin 0) = (k x = k y)"
    and lt: "\<And>x y. x \<in> set xs \<Longrightarrow> y \<in> set xs \<Longrightarrow> js_lt0 (c x y) = (k x < k y)"
    and gt: "\<And>x y. x \<in> set xs \<Longrightarrow> y \<in> set xs \<Longrightarrow> js_gt0 (c x y) = (k y < k x)"
    and nn: "\<And>x y. x \<in> set xs \<Longrightarrow> y \<in> set xs \<Longrightarrow> \<not> isNaN (c x y)"
  shows "consistentOn c xs"
  unfolding consistentOn_def list_all_iff
proof (intro conjI ballI)
  fix a b assume "a \<in> set xs" "b \<in> set xs"
  then show "\<not> isNaN (c a b)" by (rule nn)
next
  fix a assume "a \<in> set xs"
  then show "c a a = Fin 0" using eq [of a a] by simp
next
  fix a b assume ab: "a \<in> set xs" "b \<in> set xs"
  show "if c a b = Fin 0 then c b a = Fin 0 else True"
    using eq [of a b] eq [of b a] ab by auto
  show "if js_lt0 (c a b) then js_gt0 (c b a) else True"
    using lt [of a b] gt [of b a] ab by auto
next
  fix a b d assume abd: "a \<in> set xs" "b \<in> set xs" "d \<in> set xs"
  show "if c a b = Fin 0 \<and> c b d = Fin 0 then c a d = Fin 0 else True"
    using eq [of a b] eq [of b d] eq [of a d] abd by auto
  show "if js_lt0 (c a b) \<and> js_lt0 (c b d) then js_lt0 (c a d) else True"
    using lt [of a b] lt [of b d] lt [of a d] abd by auto
  show "if js_gt0 (c a b) \<and> js_gt0 (c b d) then js_gt0 (c a d) else True"
    using gt [of a b] gt [of b d] gt [of a d] abd by auto
qed

lemma isFinite_iff: "isFinite v \<longleftrightarrow> (\<exists>r. v = Fin r)"
  by (cases v) (simp_all add: isFinite_def)

lemma consistentOn_difference:
  assumes "\<And>x. x \<in> set xs \<Longrightarrow> isFinite (key x)"
  shows "consistentOn (\<lambda>a b. js_sub (key a) (key b)) xs"
    and "consistentOn (\<lambda>a b. js_neg (js_sub (key a) (key b))) xs"
proof -
  have fin: "\<exists>r. key x = Fin r" if "x \<in> set xs" for x
    using assms [OF that] by (simp add: isFinite_iff)
  show "consistentOn (\<lambda>a b. js_sub (key a) (key b)) xs"
  proof (rule consistentOn_keyed [where k = "\<lambda>x. case key x of Fin r \<Rightarrow> r | _ \<Rightarrow> 0"])
    fix x y assume "x \<in> set xs" "y \<in> set xs"
    then obtain u v where uv: "key x = Fin u" "key y = Fin v"
      using fin by blast
    show "(js_sub (key x) (key y) = Fin 0)
        = ((case key x of Fin r \<Rightarrow> r | _ \<Rightarrow> 0) = (case key y of Fin r \<Rightarrow> r | _ \<Rightarrow> 0))"
      by (simp add: uv)
    show "js_lt0 (js_sub (key x) (key y))
        = ((case key x of Fin r \<Rightarrow> r | _ \<Rightarrow> 0) < (case key y of Fin r \<Rightarrow> r | _ \<Rightarrow> 0))"
      by (simp add: uv)
    show "js_gt0 (js_sub (key x) (key y))
        = ((case key y of Fin r \<Rightarrow> r | _ \<Rightarrow> 0) < (case key x of Fin r \<Rightarrow> r | _ \<Rightarrow> 0))"
      by (simp add: uv)
    show "\<not> isNaN (js_sub (key x) (key y))"
      by (simp add: uv isNaN_def)
  qed
  show "consistentOn (\<lambda>a b. js_neg (js_sub (key a) (key b))) xs"
  proof (rule consistentOn_keyed [where k = "\<lambda>x. - (case key x of Fin r \<Rightarrow> r | _ \<Rightarrow> 0)"])
    fix x y assume "x \<in> set xs" "y \<in> set xs"
    then obtain u v where uv: "key x = Fin u" "key y = Fin v"
      using fin by blast
    show "(js_neg (js_sub (key x) (key y)) = Fin 0)
        = (- (case key x of Fin r \<Rightarrow> r | _ \<Rightarrow> 0) = - (case key y of Fin r \<Rightarrow> r | _ \<Rightarrow> 0))"
      by (auto simp: uv)
    show "js_lt0 (js_neg (js_sub (key x) (key y)))
        = (- (case key x of Fin r \<Rightarrow> r | _ \<Rightarrow> 0) < - (case key y of Fin r \<Rightarrow> r | _ \<Rightarrow> 0))"
      by (simp add: uv)
    show "js_gt0 (js_neg (js_sub (key x) (key y)))
        = (- (case key y of Fin r \<Rightarrow> r | _ \<Rightarrow> 0) < - (case key x of Fin r \<Rightarrow> r | _ \<Rightarrow> 0))"
      by (simp add: uv)
    show "\<not> isNaN (js_neg (js_sub (key x) (key y)))"
      by (simp add: uv isNaN_def)
  qed
qed

lemma consistentOn_status:
  "consistentOn (\<lambda>a b. localeCompare (status a) (status b)) xs"
  "consistentOn (\<lambda>a b. js_neg (localeCompare (status a) (status b))) xs"
proof -
  show "consistentOn (\<lambda>a b. localeCompare (status a) (status b)) xs"
    by (rule consistentOn_keyed [where k = "\<lambda>x. of_int (statusRank (status x))"])
       (auto simp: localeCompare_def isNaN_def sgn_if)
  show "consistentOn (\<lambda>a b. js_neg (localeCompare (status a) (status b))) xs"
    by (rule consistentOn_keyed [where k = "\<lambda>x. - of_int (statusRank (status x))"])
       (auto simp: localeCompare_def isNaN_def sgn_if)
qed

subsection \<open>The sort of V8\<close>

text \<open>
  The binary search stays within its bounds, so every step of the binary insertion sort
  permutes the array, and so does the sort. Where the engine's order is V8's, the sort
  is the insertion sort for a consistent comparator and V8's for any other.
\<close>

lemma binarySearch_bounds:
  "left \<le> right \<Longrightarrow>
   left \<le> binarySearch c pivot w left right \<and> binarySearch c pivot w left right \<le> right"
proof (induction c pivot w left right rule: binarySearch.induct)
  case (1 c pivot w left right)
  show ?case
  proof (cases "left < right")
    case False
    then have "binarySearch c pivot w left right = left"
      by (subst binarySearch.simps) simp
    then show ?thesis using "1.prems" by simp
  next
    case True
    define mid where "mid = left + (right - left) div 2"
    have m: "left \<le> mid" "mid < right"
      using True by (simp_all add: mid_def)
    show ?thesis
    proof (cases "js_lt0 (SortCompare c pivot (w ! mid))")
      case lt: True
      have "left \<le> binarySearch c pivot w left mid \<and> binarySearch c pivot w left mid \<le> mid"
        using "1.IH"(1) [OF True mid_def refl lt] m by simp
      moreover have "binarySearch c pivot w left right = binarySearch c pivot w left mid"
        using True lt by (subst binarySearch.simps) (simp add: mid_def Let_def)
      ultimately show ?thesis using m by simp
    next
      case ge: False
      have "mid + 1 \<le> binarySearch c pivot w (mid + 1) right
            \<and> binarySearch c pivot w (mid + 1) right \<le> right"
        using "1.IH"(2) [OF True mid_def refl ge] m by simp
      moreover have "binarySearch c pivot w left right = binarySearch c pivot w (mid + 1) right"
        using True ge by (subst binarySearch.simps) (simp add: mid_def Let_def)
      ultimately show ?thesis using m by simp
    qed
  qed
qed

lemma mset_binaryInsert:
  assumes "start < length w"
  shows "mset (binaryInsert c w start) = mset w"
proof -
  define left where "left = binarySearch c (w ! start) w 0 start"
  have l: "left \<le> start"
    using binarySearch_bounds [of 0 start c "w ! start" w] by (simp add: left_def)
  have "take left (take start w) @ drop left (take start w) = take start w"
    by (rule append_take_drop_id)
  then have "take left w @ drop left (take start w) = take start w"
    using l by (simp add: min_absorb1)
  then have "mset (take start w) = mset (take left w @ drop left (take start w))"
    by simp
  then have a: "mset (take start w) = mset (take left w) + mset (drop left (take start w))"
    by (simp only: mset_append)
  have "w = take start w @ w ! start # drop (Suc start) w"
    using assms by (rule id_take_nth_drop)
  then have "mset w = mset (take start w @ w ! start # drop (Suc start) w)"
    by simp
  then have b: "mset w = mset (take start w) + add_mset (w ! start) (mset (drop (Suc start) w))"
    by (simp only: mset_append mset.simps)
  have "mset (binaryInsert c w start)
      = mset (take left w) + add_mset (w ! start)
          (mset (drop left (take start w)) + mset (drop (Suc start) w))"
    by (simp add: binaryInsert_def Let_def left_def [symmetric] del: drop_take)
  also have "\<dots> = mset w"
    by (simp only: a b) simp
  finally show ?thesis .
qed

lemma length_binaryInsert:
  assumes "start < length w"
  shows "length (binaryInsert c w start) = length w"
proof -
  have "size (mset (binaryInsert c w start)) = size (mset w)"
    using mset_binaryInsert [OF assms] by simp
  then show ?thesis by simp
qed

lemma mset_binaryInsertionSort:
  "start + n \<le> length w \<Longrightarrow> mset (binaryInsertionSort c n w start) = mset w"
proof (induction n arbitrary: w start)
  case 0
  show ?case by simp
next
  case (Suc n)
  have s: "start < length w" using Suc.prems by simp
  have "mset (binaryInsertionSort c n (binaryInsert c w start) (Suc start))
      = mset (binaryInsert c w start)"
    by (rule Suc.IH) (use Suc.prems in \<open>simp add: length_binaryInsert [OF s]\<close>)
  then show ?case by (simp add: mset_binaryInsert [OF s])
qed

lemma runTail_le: "runTail d c prev xs \<le> length xs"
  by (induction xs arbitrary: prev) (simp_all add: Let_def)

lemma runLength_le: "runLength c xs \<le> length xs"
proof (cases xs)
  case Nil
  then show ?thesis by (simp add: runLength_def)
next
  case (Cons a ys)
  then show ?thesis
    using runTail_le [of "runIsDescending c xs" c "hd ys" "tl ys"]
    by (cases ys) (simp_all add: runLength_def)
qed

lemma mset_countAndMakeRun: "mset (countAndMakeRun c xs) = mset xs"
proof -
  have "mset (rev (take n xs) @ drop n xs) = mset (take n xs @ drop n xs)" for n
    by (simp only: mset_append mset_rev)
  then have "mset (rev (take n xs) @ drop n xs) = mset xs" for n
    by simp
  then show ?thesis by (simp add: countAndMakeRun_def)
qed

lemma length_countAndMakeRun: "length (countAndMakeRun c xs) = length xs"
proof -
  have "size (mset (countAndMakeRun c xs)) = size (mset xs)"
    by (simp only: mset_countAndMakeRun)
  then show ?thesis by simp
qed

lemma mset_v8ShortSort: "mset (v8ShortSort c xs) = mset xs"
proof (cases "length xs < 2")
  case True
  then show ?thesis by (simp add: v8ShortSort_def)
next
  case False
  have "mset (binaryInsertionSort c (length xs - runLength c xs) (countAndMakeRun c xs)
          (runLength c xs)) = mset (countAndMakeRun c xs)"
    by (rule mset_binaryInsertionSort)
       (use runLength_le [of c xs] in \<open>simp add: length_countAndMakeRun\<close>)
  then show ?thesis using False by (simp add: v8ShortSort_def mset_countAndMakeRun)
qed

lemma array_sort_v8:
  "engineOrder E = v8ShortSort \<Longrightarrow>
   array_sort E c xs = (if consistentOn c xs then insertion_sort c xs else v8ShortSort c xs)"
  by (simp add: array_sort_def mset_v8ShortSort)

subsection \<open>The comparator\<close>

lemma js_sub_zero: "js_sub u v = Fin 0 \<longleftrightarrow> (\<exists>r. u = Fin r \<and> v = Fin r)"
  by (cases u; cases v) auto

lemma js_sub_NaN_left: "js_sub NaN v = NaN"
  by simp

lemma js_sub_NaN_right: "js_sub u NaN = NaN"
  by (cases u) simp_all

lemma js_neg_NaN: "js_neg v = NaN \<longleftrightarrow> v = NaN"
  by (cases v) simp_all

lemma js_le_NaN: "\<not> js_le NaN v" "\<not> js_le v NaN"
  by (cases v; simp)+

lemma localeCompare_zero: "localeCompare a b = Fin 0 \<longleftrightarrow> a = b"
  by (cases a; cases b) (simp_all add: localeCompare_def)

lemma comparison_zero_class:
  assumes "comparison E f a x = Fin 0" and "comparison E f a y = Fin 0"
  shows "comparison E f x y = Fin 0"
proof (cases f)
  case SortDate
  with assms show ?thesis by (auto simp: comparison_def js_sub_zero)
next
  case SortAmount
  with assms show ?thesis by (auto simp: comparison_def js_sub_zero)
next
  case SortStatus
  with assms show ?thesis by (auto simp: comparison_def localeCompare_zero)
qed

lemma equal_keys_never_swapped:
  "comparison E f x y = Fin 0 \<Longrightarrow> \<not> js_gt0 (SortCompare (compareFn E f ord) x y)"
  by (simp add: SortCompare_def compareFn_def isNaN_def)

lemma comparison_NaN_amount:
  assumes "isNaN (parseFloat E (amount a))"
  shows "comparison E SortAmount a b = NaN" and "comparison E SortAmount b a = NaN"
  using assms by (simp_all add: comparison_def isNaN_def js_sub_NaN_right)

lemma comparison_NaN_date:
  assumes "isNaN (dateParse E (timestamp a))"
  shows "comparison E SortDate a b = NaN" and "comparison E SortDate b a = NaN"
  using assms by (simp_all add: comparison_def isNaN_def js_sub_NaN_right)

lemma SortCompare_NaN:
  "comparison E f a b = NaN \<Longrightarrow> SortCompare (compareFn E f ord) a b = Fin 0"
  by (simp add: SortCompare_def compareFn_def isNaN_def)

lemma compareFn_unfold:
  "compareFn E SortDate Asc = (\<lambda>a b. js_sub (dateParse E (timestamp a)) (dateParse E (timestamp b)))"
  "compareFn E SortDate Desc
     = (\<lambda>a b. js_neg (js_sub (dateParse E (timestamp a)) (dateParse E (timestamp b))))"
  "compareFn E SortAmount Asc = (\<lambda>a b. js_sub (parseFloat E (amount a)) (parseFloat E (amount b)))"
  "compareFn E SortAmount Desc
     = (\<lambda>a b. js_neg (js_sub (parseFloat E (amount a)) (parseFloat E (amount b))))"
  "compareFn E SortStatus Asc = (\<lambda>a b. localeCompare (status a) (status b))"
  "compareFn E SortStatus Desc = (\<lambda>a b. js_neg (localeCompare (status a) (status b)))"
  by (intro ext; simp add: compareFn_def comparison_def)+

text \<open>
  The comparator of the page is consistent on a list exactly when every sort key of the
  list parses: every timestamp is a valid date for the sort by date, every amount a finite
  number for the sort by amount; the comparator of the status always is. A key that does
  not parse compares as \<open>NaN\<close> with itself.
\<close>

lemma keysParse_consistent:
  assumes "keysParse E f xs"
  shows "consistentOn (compareFn E f ord) xs"
proof (cases f)
  case SortDate
  then have "\<And>x. x \<in> set xs \<Longrightarrow> isFinite (dateParse E (timestamp x))"
    using assms by (simp add: keysParse_def list_all_iff)
  then show ?thesis
    using SortDate consistentOn_difference [of xs "\<lambda>t. dateParse E (timestamp t)"]
    by (cases ord) (simp_all add: compareFn_unfold)
next
  case SortAmount
  then have "\<And>x. x \<in> set xs \<Longrightarrow> isFinite (parseFloat E (amount x))"
    using assms by (simp add: keysParse_def list_all_iff)
  then show ?thesis
    using SortAmount consistentOn_difference [of xs "\<lambda>t. parseFloat E (amount t)"]
    by (cases ord) (simp_all add: compareFn_unfold)
next
  case SortStatus
  then show ?thesis
    using consistentOn_status [of xs] by (cases ord) (simp_all add: compareFn_unfold)
qed

lemma not_finite_difference:
  assumes "\<not> isFinite v"
  shows "isNaN (js_sub v v)" and "isNaN (js_neg (js_sub v v))"
  using assms by (cases v; simp add: isFinite_def isNaN_def)+

lemma not_keysParse_NaN:
  assumes "\<not> keysParse E f xs"
  shows "\<exists>x\<in>set xs. isNaN (compareFn E f ord x x)"
proof (cases f)
  case SortDate
  then obtain x where "x \<in> set xs" "\<not> isFinite (dateParse E (timestamp x))"
    using assms by (auto simp: keysParse_def list_all_iff)
  then show ?thesis
    using SortDate not_finite_difference [of "dateParse E (timestamp x)"]
    by (cases ord) (auto simp: compareFn_unfold)
next
  case SortAmount
  then obtain x where "x \<in> set xs" "\<not> isFinite (parseFloat E (amount x))"
    using assms by (auto simp: keysParse_def list_all_iff)
  then show ?thesis
    using SortAmount not_finite_difference [of "parseFloat E (amount x)"]
    by (cases ord) (auto simp: compareFn_unfold)
next
  case SortStatus
  then show ?thesis using assms by (simp add: keysParse_def)
qed

lemma consistent_iff_keysParse:
  "consistentOn (compareFn E f ord) xs \<longleftrightarrow> keysParse E f xs"
proof
  assume c: "consistentOn (compareFn E f ord) xs"
  show "keysParse E f xs"
  proof (rule ccontr)
    assume "\<not> keysParse E f xs"
    then obtain x where "x \<in> set xs" "isNaN (compareFn E f ord x x)"
      using not_keysParse_NaN by blast
    then have "\<not> consistentOn (compareFn E f ord) xs" by (rule not_consistent_NaN)
    then show False using c by simp
  qed
next
  assume "keysParse E f xs"
  then show "consistentOn (compareFn E f ord) xs" by (rule keysParse_consistent)
qed

lemma zero_default_consistent:
  assumes "list_all (\<lambda>t. isFinite (amountOrZero E (amount t))) xs"
  shows "array_sort E' (comparisonWithZeroDefault E) xs
           = insertion_sort (comparisonWithZeroDefault E) xs"
proof (rule array_sort_consistent)
  have "consistentOn (\<lambda>a b. js_sub (amountOrZero E (amount a)) (amountOrZero E (amount b))) xs"
    by (rule consistentOn_difference) (use assms in \<open>simp add: list_all_iff\<close>)
  moreover have "comparisonWithZeroDefault E
      = (\<lambda>a b. js_sub (amountOrZero E (amount a)) (amountOrZero E (amount b)))"
    by (intro ext) (simp add: comparisonWithZeroDefault_def)
  ultimately show "consistentOn (comparisonWithZeroDefault E) xs" by simp
qed

subsection \<open>The pipeline\<close>

text \<open>
  When every sort key of the filtered list parses, the sorted list is the insertion sort
  of the filtered list, for every engine; where the engine sorts as V8 does, it is V8's
  order otherwise.
\<close>

lemma filteredTransactions_sort_params [simp]:
  "filteredTransactions E (s\<lparr>sortField := f, sortOrder := ord\<rparr>) = filteredTransactions E s"
  by (simp add: filteredTransactions_def)

lemma filteredAndSorted_currentPage [simp]:
  "filteredAndSortedTransactions E (s\<lparr>currentPage := p\<rparr>) = filteredAndSortedTransactions E s"
  by (simp add: filteredAndSortedTransactions_def filteredTransactions_def)

lemma length_filteredAndSorted:
  "length (filteredAndSortedTransactions E s) = length (filteredTransactions E s)"
  by (simp add: filteredAndSortedTransactions_def length_array_sort)

lemma no_filters:
  assumes "statusFilter s = ''all''" "dateFrom s = []" "dateTo s = []" "debouncedSearch s = []"
  shows "filteredTransactions E s = transactions s"
  using assms
  by (simp add: filteredTransactions_def statusStage_def dateFromStage_def dateToStage_def
      searchStage_def truthy_def)

lemma sorted_by_insertion:
  assumes "keysParse E (sortField s) (filteredTransactions E s)"
  shows "filteredAndSortedTransactions E s
           = insertion_sort (compareFn E (sortField s) (sortOrder s)) (filteredTransactions E s)"
  unfolding filteredAndSortedTransactions_def
  by (rule array_sort_consistent) (rule keysParse_consistent [OF assms])

lemma sorted_v8:
  assumes "engineOrder E = v8ShortSort"
  shows "filteredAndSortedTransactions E s
     = (if keysParse E (sortField s) (filteredTransactions E s)
        then insertion_sort (compareFn E (sortField s) (sortOrder s)) (filteredTransactions E s)
        else v8ShortSort (compareFn E (sortField s) (sortOrder s)) (filteredTransactions E s))"
  using assms
  by (simp add: filteredAndSortedTransactions_def array_sort_v8 consistent_iff_keysParse)

lemma engineOrder_utcEnv: "engineOrder utcEnv = v8ShortSort"
  by (simp add: utcEnv_def)

lemmas pipeline_defs = sorted_v8 keysParse_def isFinite_def filteredTransactions_def statusStage_def
  dateFromStage_def dateToStage_def searchStage_def truthy_def insertion_sort_def SortCompare_def
  compareFn_def comparison_def isNaN_def js_ge_def setHoursEndOfDay_def localeCompare_def

lemmas v8_defs = v8ShortSort_def runLength_def runIsDescending_def countAndMakeRun_def
  binaryInsert_def binarySearch.simps Let_def

lemma sorted_keeps_equal_keys:
  assumes "keysParse E f (filteredTransactions E s)"
  shows "filter (\<lambda>t. comparison E f a t = Fin 0)
      (filteredAndSortedTransactions E (s\<lparr>sortField := f, sortOrder := ord\<rparr>))
   = filter (\<lambda>t. comparison E f a t = Fin 0) (filteredTransactions E s)"
proof -
  have "filteredAndSortedTransactions E (s\<lparr>sortField := f, sortOrder := ord\<rparr>)
      = insertion_sort (compareFn E f ord) (filteredTransactions E s)"
    using sorted_by_insertion [of E "s\<lparr>sortField := f, sortOrder := ord\<rparr>"] assms by simp
  moreover
  have "filter (\<lambda>t. comparison E f a t = Fin 0)
          (insertion_sort (compareFn E f ord) (filteredTransactions E s))
        = filter (\<lambda>t. comparison E f a t = Fin 0) (filteredTransactions E s)"
  proof (rule filter_insertion_sort)
    fix x y
    assume "comparison E f a x = Fin 0" and "comparison E f a y = Fin 0"
    then have "comparison E f x y = Fin 0" by (rule comparison_zero_class)
    then show "\<not> js_gt0 (SortCompare (compareFn E f ord) x y)"
      by (rule equal_keys_never_swapped)
  qed
  ultimately show ?thesis by simp
qed

lemma sorted_keeps_pair:
  assumes "comparison E f a b = Fin 0" and keys: "keysParse E f (filteredTransactions E s)"
  shows "filter (\<lambda>t. t = a \<or> t = b)
            (filteredAndSortedTransactions E (s\<lparr>sortField := f, sortOrder := ord\<rparr>))
         = filter (\<lambda>t. t = a \<or> t = b) (filteredTransactions E s)"
proof -
  let ?same = "\<lambda>t. comparison E f a t = Fin 0"
  have aa: "?same a"
    using assms(1) by (cases f) (auto simp: comparison_def js_sub_zero localeCompare_zero)
  have pair: "filter (\<lambda>t. t = a \<or> t = b) (filter ?same xs) = filter (\<lambda>t. t = a \<or> t = b) xs" for xs
    using assms(1) aa by (induction xs) auto
  have "filter (\<lambda>t. t = a \<or> t = b)
          (filteredAndSortedTransactions E (s\<lparr>sortField := f, sortOrder := ord\<rparr>))
      = filter (\<lambda>t. t = a \<or> t = b)
          (filter ?same (filteredAndSortedTransactions E (s\<lparr>sortField := f, sortOrder := ord\<rparr>)))"
    by (simp only: pair)
  also have "\<dots> = filter (\<lambda>t. t = a \<or> t = b) (filter ?same (filteredTransactions E s))"
    by (simp only: sorted_keeps_equal_keys [OF keys])
  also have "\<dots> = filter (\<lambda>t. t = a \<or> t = b) (filteredTransactions E s)"
    by (simp only: pair)
  finally show ?thesis .
qed

lemma page_within_total:
  assumes "1 \<le> currentPage s" and "currentPage s \<le> totalPages E s"
  shows "paginatedTransactions E s
           = take 15 (drop (nat ((currentPage s - 1) * 15)) (filteredAndSortedTransactions E s))"
    and "paginatedTransactions E s \<noteq> []"
    and "showingFrom E s = (currentPage s - 1) * 15 + 1"
proof -
  let ?xs = "filteredAndSortedTransactions E s"
  have "\<not> pageCount 15 (length ?xs) \<le> currentPage s - 1"
    using assms(2) by (simp add: totalPages_def itemsPerPage_def)
  then have less: "(currentPage s - 1) * 15 < int (length ?xs)"
    using pageCount_le_iff [of 15 "length ?xs" "currentPage s - 1"] by simp
  show eq: "paginatedTransactions E s = take 15 (drop (nat ((currentPage s - 1) * 15)) ?xs)"
    using pageSlice_take_drop [of 15 "currentPage s" ?xs] assms(1)
    by (simp add: paginatedTransactions_def itemsPerPage_def)
  have "0 \<le> (currentPage s - 1) * 15"
    using assms(1) by simp
  then have "nat ((currentPage s - 1) * 15) < length ?xs"
    using less by (simp add: nat_less_iff)
  then have "drop (nat ((currentPage s - 1) * 15)) ?xs \<noteq> []"
    by simp
  then show "paginatedTransactions E s \<noteq> []"
    by (simp add: eq)
  have "length ?xs \<noteq> 0"
    using less assms(1) by auto
  then show "showingFrom E s = (currentPage s - 1) * 15 + 1"
    by (simp add: showingFrom_def itemsPerPage_def)
qed

lemma page_beyond_total:
  assumes "totalPages E s < currentPage s"
  shows "paginatedTransactions E s = []"
proof -
  let ?xs = "filteredAndSortedTransactions E s"
  have tp: "pageCount 15 (length ?xs) \<le> currentPage s - 1"
    using assms by (simp add: totalPages_def itemsPerPage_def)
  then have ge: "int (length ?xs) \<le> (currentPage s - 1) * 15"
    using pageCount_le_iff [of 15 "length ?xs" "currentPage s - 1"] by simp
  have p1: "1 \<le> currentPage s"
    using tp pageCount_nonneg [of "length ?xs"] by linarith
  have "paginatedTransactions E s = take 15 (drop (nat ((currentPage s - 1) * 15)) ?xs)"
    using pageSlice_take_drop [of 15 "currentPage s" ?xs] p1
    by (simp add: paginatedTransactions_def itemsPerPage_def)
  moreover have "length ?xs \<le> nat ((currentPage s - 1) * 15)"
    using ge by linarith
  ultimately show ?thesis by simp
qed

lemma page_is_part:
  "\<exists>before after. xs = before @ js_slice xs i j @ after"
proof -
  have "xs = take k xs @ take m (drop k xs) @ drop m (drop k xs)" for k m
    by (metis append_take_drop_id)
  then show ?thesis unfolding js_slice_def Let_def by blast
qed

text \<open>
  Each filter keeps a part of its input, and a transaction whose timestamp is not a date
  passes neither date filter. When every amount is a finite number, the sort by amount
  orders the list.
\<close>

lemma mset_stage_subset:
  "mset (statusStage sf xs) \<subseteq># mset xs"
  "mset (dateFromStage E df xs) \<subseteq># mset xs"
  "mset (dateToStage E dt xs) \<subseteq># mset xs"
  "mset (searchStage q xs) \<subseteq># mset xs"
  by (simp_all add: statusStage_def dateFromStage_def dateToStage_def searchStage_def Let_def)

lemma mset_filteredTransactions: "mset (filteredTransactions E s) \<subseteq># mset (transactions s)"
  unfolding filteredTransactions_def
  by (meson mset_stage_subset subset_mset.order_trans)

lemma set_stage_subset:
  "set (statusStage sf xs) \<subseteq> set xs"
  "set (dateFromStage E df xs) \<subseteq> set xs"
  "set (dateToStage E dt xs) \<subseteq> set xs"
  "set (searchStage q xs) \<subseteq> set xs"
  by (auto simp: statusStage_def dateFromStage_def dateToStage_def searchStage_def Let_def)

lemma invalid_date_filtered_out:
  assumes "isNaN (dateParse E (timestamp t))" and "truthy (dateFrom s) \<or> truthy (dateTo s)"
  shows "t \<notin> set (filteredTransactions E s)"
proof
  assume t: "t \<in> set (filteredTransactions E s)"
  let ?a = "statusStage (statusFilter s) (transactions s)"
  let ?b = "dateFromStage E (dateFrom s) ?a"
  let ?c = "dateToStage E (dateTo s) ?b"
  have tc: "t \<in> set ?c"
    using t set_stage_subset(4) unfolding filteredTransactions_def by blast
  then have tb: "t \<in> set ?b"
    using set_stage_subset(3) by blast
  from assms(2) show False
  proof
    assume "truthy (dateFrom s)"
    then show False
      using tb assms(1) by (simp add: dateFromStage_def isNaN_def js_ge_def js_le_NaN)
  next
    assume "truthy (dateTo s)"
    then show False
      using tc assms(1) by (simp add: dateToStage_def isNaN_def js_le_NaN)
  qed
qed


text \<open>
  The sort by status, and the sort by amount of a list of which every amount is a finite
  number, are stable sorts by key.
\<close>

lemma status_sort_is_sort_key:
  "filteredAndSortedTransactions E (s\<lparr>sortField := SortStatus, sortOrder := Asc\<rparr>)
     = sort_key (\<lambda>t. statusRank (status t)) (filteredTransactions E s)"
  "filteredAndSortedTransactions E (s\<lparr>sortField := SortStatus, sortOrder := Desc\<rparr>)
     = sort_key (\<lambda>t. - statusRank (status t)) (filteredTransactions E s)"
proof -
  have "insertion_sort (compareFn E SortStatus Asc) (filteredTransactions E s)
      = sort_key (\<lambda>t. statusRank (status t)) (filteredTransactions E s)"
    by (rule insertion_sort_sort_key)
       (auto simp: SortCompare_def compareFn_def comparison_def localeCompare_def isNaN_def sgn_if)
  then show "filteredAndSortedTransactions E (s\<lparr>sortField := SortStatus, sortOrder := Asc\<rparr>)
     = sort_key (\<lambda>t. statusRank (status t)) (filteredTransactions E s)"
    using sorted_by_insertion [of E "s\<lparr>sortField := SortStatus, sortOrder := Asc\<rparr>"]
    by (simp add: keysParse_def)
  have "insertion_sort (compareFn E SortStatus Desc) (filteredTransactions E s)
      = sort_key (\<lambda>t. - statusRank (status t)) (filteredTransactions E s)"
    by (rule insertion_sort_sort_key)
       (auto simp: SortCompare_def compareFn_def comparison_def localeCompare_def isNaN_def sgn_if)
  then show "filteredAndSortedTransactions E (s\<lparr>sortField := SortStatus, sortOrder := Desc\<rparr>)
     = sort_key (\<lambda>t. - statusRank (status t)) (filteredTransactions E s)"
    using sorted_by_insertion [of E "s\<lparr>sortField := SortStatus, sortOrder := Desc\<rparr>"]
    by (simp add: keysParse_def)
qed

lemma amount_sort_is_sort_key:
  assumes fin: "\<And>t. t \<in> set (filteredTransactions E s) \<Longrightarrow> \<exists>r. parseFloat E (amount t) = Fin r"
  shows "filteredAndSortedTransactions E (s\<lparr>sortField := SortAmount, sortOrder := Asc\<rparr>)
     = sort_key (\<lambda>t. case parseFloat E (amount t) of Fin r \<Rightarrow> r | _ \<Rightarrow> 0)
         (filteredTransactions E s)"
proof -
  have "insertion_sort (compareFn E SortAmount Asc) (filteredTransactions E s)
      = sort_key (\<lambda>t. case parseFloat E (amount t) of Fin r \<Rightarrow> r | _ \<Rightarrow> 0)
         (filteredTransactions E s)"
  proof (rule insertion_sort_sort_key)
    fix x y
    assume "x \<in> set (filteredTransactions E s)" "y \<in> set (filteredTransactions E s)"
    then obtain u v where "parseFloat E (amount x) = Fin u" "parseFloat E (amount y) = Fin v"
      using fin by blast
    then show "js_gt0 (SortCompare (compareFn E SortAmount Asc) x y)
        \<longleftrightarrow> (case parseFloat E (amount y) of Fin r \<Rightarrow> r | _ \<Rightarrow> 0)
             < (case parseFloat E (amount x) of Fin r \<Rightarrow> r | _ \<Rightarrow> 0)"
      by (simp add: SortCompare_def compareFn_def comparison_def isNaN_def)
  qed
  moreover have "keysParse E SortAmount (filteredTransactions E s)"
    using fin by (auto simp: keysParse_def list_all_iff isFinite_iff)
  ultimately show ?thesis
    using sorted_by_insertion [of E "s\<lparr>sortField := SortAmount, sortOrder := Asc\<rparr>"]
    by simp
qed

subsection \<open>The text search\<close>

text \<open>\<open>includes\<close> holds exactly when the query is a contiguous part of the string.\<close>

lemma startsWith_prefix: "startsWith s q \<longleftrightarrow> prefix q s"
  by (induction s q rule: startsWith.induct) auto

lemma str_includes_sublist: "str_includes s q \<longleftrightarrow> sublist q s"
proof (induction s)
  case Nil
  show ?case by simp
next
  case (Cons c cs)
  show ?case
  proof (cases q)
    case Nil
    then show ?thesis by simp
  next
    case (Cons d ds)
    then show ?thesis
      using Cons.IH by (simp add: startsWith_prefix sublist_Cons_right del: startsWith.simps)
  qed
qed

lemma searchStage_empty: "searchStage [] xs = xs"
  by (simp add: searchStage_def truthy_def)

lemma searchStage_nonempty:
  "q \<noteq> [] \<Longrightarrow>
   searchStage q xs
     = filter (\<lambda>tx. sublist (toLowerCase q) (toLowerCase (hash tx))
                   \<or> sublist (toLowerCase q) (toLowerCase (fromAddress tx))
                   \<or> sublist (toLowerCase q) (toLowerCase (toAddress tx))) xs"
  by (simp add: searchStage_def truthy_def str_includes_sublist Let_def)

lemma filteredTransactions_search:
  "filteredTransactions E s
     = searchStage (debouncedSearch s) (filteredTransactions E (s\<lparr>debouncedSearch := []\<rparr>))"
  by (simp add: filteredTransactions_def searchStage_empty)

subsection \<open>The CSV export\<close>

text \<open>
  The loop appends one line per row; a value without a double quote is its own
  replacement.
\<close>

lemma foldl_push: "foldl (\<lambda>lines r. lines @ [f r]) acc rows = acc @ map f rows"
  by (induction rows arbitrary: acc) simp_all

lemma replaceQuotes_unquoted: "CHR 0x22 \<notin> set v \<Longrightarrow> replaceQuotes v = v"
  by (induction v) (auto simp: replaceQuotes_def)

lemma escapeCsv_Some:
  "escapeCsv (Some v)
     = (if CHR 0x22 \<in> set v \<or> CHR '','' \<in> set v \<or> CHR 0x0A \<in> set v
        then [CHR 0x22] @ concat (map (\<lambda>c. if c = CHR 0x22 then [CHR 0x22, CHR 0x22] else [c]) v)
             @ [CHR 0x22]
        else v)"
proof -
  have "list_ex (\<lambda>c. c = CHR 0x22 \<or> c = CHR '','' \<or> c = CHR 0x0A) v
        \<longleftrightarrow> CHR 0x22 \<in> set v \<or> CHR '','' \<in> set v \<or> CHR 0x0A \<in> set v"
    by (auto simp: list_ex_iff)
  then show ?thesis
    by (auto simp: escapeCsv_def Let_def replaceQuotes_unquoted) (simp_all add: replaceQuotes_def)
qed

lemma header_line:
  "join '','' [''id'', ''hash'', ''fromAddress'', ''toAddress'', ''amount'', ''status'',
               ''gasLimit'', ''gasPrice'', ''timestamp'']
   = ''id,hash,fromAddress,toAddress,amount,status,gasLimit,gasPrice,timestamp''"
  by simp

subsection \<open>The example lists\<close>

text \<open>
  The numbered transactions share one timestamp, so the default sort by date leaves a
  list of them as it is.
\<close>

lemma same_timestamp_unsorted:
  assumes "\<And>t. t \<in> set (filteredTransactions utcEnv s) \<Longrightarrow> timestamp t = ''2024-01-15T10:00:00Z''"
    and "sortField s = SortDate"
  shows "filteredAndSortedTransactions utcEnv s = filteredTransactions utcEnv s"
proof -
  have "isFinite (dateParse utcEnv ''2024-01-15T10:00:00Z'')"
    by (simp add: isFinite_def date_defs utcEnv_def)
  then have "keysParse utcEnv (sortField s) (filteredTransactions utcEnv s)"
    using assms by (simp add: keysParse_def list_all_iff)
  then have "filteredAndSortedTransactions utcEnv s
      = insertion_sort (compareFn utcEnv (sortField s) (sortOrder s))
          (filteredTransactions utcEnv s)"
    by (rule sorted_by_insertion)
  also have "\<dots> = filteredTransactions utcEnv s"
  proof (rule insertion_sort_unchanged)
    fix x y
    assume "x \<in> set (filteredTransactions utcEnv s)" "y \<in> set (filteredTransactions utcEnv s)"
    then have "timestamp x = ''2024-01-15T10:00:00Z''" "timestamp y = ''2024-01-15T10:00:00Z''"
      using assms(1) by simp_all
    then show "\<not> js_gt0 (SortCompare (compareFn utcEnv (sortField s) (sortOrder s)) x y)"
      using assms(2)
      by (simp add: SortCompare_def compareFn_def comparison_def isNaN_def date_defs utcEnv_def)
  qed
  finally show ?thesis .
qed

lemma numbered_timestamp: "timestamp (numbered i) = ''2024-01-15T10:00:00Z''"
  by (simp add: numbered_def tx1_def)

lemma numbered_list_unsorted:
  assumes "transactions s = map numbered ns"
    and "statusFilter s = ''all''" "dateFrom s = []" "dateTo s = []" "debouncedSearch s = []"
    and "sortField s = SortDate"
  shows "filteredAndSortedTransactions utcEnv s = map numbered ns"
proof -
  have f: "filteredTransactions utcEnv s = map numbered ns"
    using assms by (simp add: no_filters)
  have "filteredAndSortedTransactions utcEnv s = filteredTransactions utcEnv s"
  proof (rule same_timestamp_unsorted)
    show "timestamp t = ''2024-01-15T10:00:00Z''" if "t \<in> set (filteredTransactions utcEnv s)" for t
      using that by (auto simp: f numbered_timestamp)
    show "sortField s = SortDate" by (rule assms(6))
  qed
  then show ?thesis by (simp add: f)
qed

lemma c1_sorted:
  "filteredAndSortedTransactions utcEnv (loaded sixteen) = sixteen"
  unfolding sixteen_def
  by (rule numbered_list_unsorted) (simp_all add: loaded_def initialState_def sixteen_def)

lemma last_of_sixteen: "drop 15 sixteen = [numbered 16]"
  by code_simp

lemma forty_sorted:
  "filteredAndSortedTransactions utcEnv ((loaded forty)\<lparr>debounceTimer := b\<rparr>) = forty"
  unfolding forty_def
  by (rule numbered_list_unsorted) (simp_all add: loaded_def initialState_def forty_def)

lemma pending_of_forty:
  "length (filter (\<lambda>tx. status_str (status tx) = ''pending'') forty) = 20"
  by code_simp

text \<open>
  The list \<open>seven\<close>, sorted by amount in the ascending order by the sort of V8: the
  amount \<open>invalid\<close> compares as equal with every other, and the binary insertion
  passes \<open>B\<close> before \<open>A\<close>.
\<close>

lemma seven_amounts:
  "parseFloat utcEnv ''0.1'' = Fin (1 / 10)"
  "parseFloat utcEnv ''0.2'' = Fin (1 / 5)"
  "parseFloat utcEnv ''3'' = Fin 3"
  "parseFloat utcEnv ''invalid'' = NaN"
  "parseFloat utcEnv ''1'' = Fin 1"
  "parseFloat utcEnv ''0'' = Fin 0"
  by (simp_all add: parse_defs utcEnv_def)

lemma withAmount_fields: "amount (withAmount i a) = a" "tx_id (withAmount i a) = i"
  by (simp_all add: withAmount_def)

lemma seven_unfiltered: "filteredTransactions utcEnv (loaded seven) = seven"
  by (simp add: no_filters loaded_def initialState_def)

lemma seven_sorted:
  "filteredAndSortedTransactions utcEnv ((loaded seven)\<lparr>sortField := SortAmount, sortOrder := Asc\<rparr>)
     = [withAmount ''C'' ''0'', withAmount ''P'' ''0.1'', withAmount ''Q'' ''0.2'',
        withAmount ''B'' ''1'', withAmount ''X'' ''3'', withAmount ''N'' ''invalid'',
        withAmount ''A'' ''1'']"
proof -
  have "\<not> keysParse utcEnv SortAmount seven"
    by (simp add: seven_def keysParse_def isFinite_def withAmount_fields seven_amounts)
  then have "filteredAndSortedTransactions utcEnv ((loaded seven)\<lparr>sortField := SortAmount, sortOrder := Asc\<rparr>)
      = v8ShortSort (compareFn utcEnv SortAmount Asc) seven"
    by (simp add: sorted_v8 [OF engineOrder_utcEnv] seven_unfiltered)
  also have "\<dots> = [withAmount ''C'' ''0'', withAmount ''P'' ''0.1'', withAmount ''Q'' ''0.2'',
        withAmount ''B'' ''1'', withAmount ''X'' ''3'', withAmount ''N'' ''invalid'',
        withAmount ''A'' ''1'']"
    by (simp add: seven_def v8_defs withAmount_fields seven_amounts SortCompare_def compareFn_def
        comparison_def isNaN_def)
  finally show ?thesis .
qed

subsection \<open>The handlers\<close>

text \<open>
  \<open>handleSort\<close>, \<open>clearFilters\<close> and the search timeout set the page to 1; the
  setters of the status filter and of the date bounds leave it.
\<close>

lemma handlers_that_reset_page:
  "currentPage (handleSort field s) = 1"
  "currentPage (clearFilters s) = 1"
  "debounceTimer s \<Longrightarrow> currentPage (debounceTimeout s) = 1"
  by (simp_all add: handleSort_def clearFilters_def debounceTimeout_def setCurrentPage_def)

lemma handlers_that_keep_page:
  "currentPage (setStatusFilter v s) = currentPage s"
  "currentPage (setDateFrom v s) = currentPage s"
  "currentPage (setDateTo v s) = currentPage s"
  "currentPage (setSearchQuery q s) = currentPage s"
  by (simp_all add: setStatusFilter_def setDateFrom_def setDateTo_def setSearchQuery_def)

lemma fetched: "step utcEnv (FetchSucceeded forty) initialState = (loaded forty)\<lparr>debounceTimer := True\<rparr>"
  by (simp add: loaded_def initialState_def)

lemma reach_page3:
  "run utcEnv [FetchSucceeded forty, ClickNext, ClickNext] initialState
     = (loaded forty)\<lparr>debounceTimer := True, currentPage := 3\<rparr>"
proof -
  have len: "length forty = 40" by (simp add: forty_def)
  have tp: "totalPages utcEnv ((loaded forty)\<lparr>debounceTimer := True, currentPage := p\<rparr>) = 3" for p
    by (simp add: totalPages_def itemsPerPage_def forty_sorted len pageCount_15_40)
  have shown: "controlsShown utcEnv ((loaded forty)\<lparr>debounceTimer := True, currentPage := p\<rparr>)" for p
    by (simp add: controlsShown_def forty_sorted len) (simp add: loaded_def initialState_def)
  have "(loaded forty)\<lparr>debounceTimer := True\<rparr> = (loaded forty)\<lparr>debounceTimer := True, currentPage := 1\<rparr>"
    by (simp add: loaded_def initialState_def)
  then have s1: "step utcEnv (FetchSucceeded forty) initialState = (loaded forty)\<lparr>debounceTimer := True, currentPage := 1\<rparr>"
    by (simp only: fetched)
  have s2: "step utcEnv ClickNext ((loaded forty)\<lparr>debounceTimer := True, currentPage := 1\<rparr>)
      = (loaded forty)\<lparr>debounceTimer := True, currentPage := 2\<rparr>"
    by (simp add: shown tp setCurrentPage_def)
  have s3: "step utcEnv ClickNext ((loaded forty)\<lparr>debounceTimer := True, currentPage := 2\<rparr>)
      = (loaded forty)\<lparr>debounceTimer := True, currentPage := 3\<rparr>"
    by (simp add: shown tp setCurrentPage_def)
  show ?thesis by (simp only: run.simps s1 s2 s3)
qed

lemma onPage3_state:
  "onPage3 = (loaded forty)\<lparr>debounceTimer := True, currentPage := 3\<rparr>"
  unfolding onPage3_def by (rule reach_page3)

lemma onPage3_shown: "controlsShown utcEnv onPage3"
proof -
  have "filteredAndSortedTransactions utcEnv onPage3 = forty"
    by (simp add: onPage3_state forty_sorted)
  moreover have "length forty = 40" by (simp add: forty_def)
  ultimately show ?thesis
    by (simp add: controlsShown_def) (simp add: onPage3_state loaded_def initialState_def)
qed

subsection \<open>Decimal digits and toFixed\<close>

text \<open>
  \<open>natDigits\<close> prints a number in decimal digits, and \<open>digitsVal\<close> reads it back.
  Below \<open>10^21\<close>, \<open>toFixed(8)\<close> prints digits, a point and eight digits, which read
  as the value times \<open>10^8\<close>, rounded half up. No result of \<open>toFixed(8)\<close> is the
  text \<open>N/A\<close>.
\<close>

lemma parseFloat_empty: "parseFloat E [] = NaN"
  by (simp add: parseFloat_def unsignedLiteral_def)

lemma js_mul_NaN: "js_mul E NaN v = NaN" "js_mul E v NaN = NaN"
  by (cases v; simp)+

lemma digitChar_digit: "isDigit (digitChar d)"
proof -
  have "list_all isDigit ''0123456789''"
    by (simp add: isDigit_def)
  moreover have "d mod 10 < length ''0123456789''"
    by simp
  ultimately show ?thesis
    unfolding digitChar_def list_all_length by blast
qed

lemma digitVal_digitChar: "digitVal (digitChar d) = d mod 10"
proof -
  have "map digitVal ''0123456789'' = [0, 1, 2, 3, 4, 5, 6, 7, 8, 9]"
    by (simp add: digitVal_def)
  moreover have "[0..<10] = [0, 1, 2, 3, 4, 5, 6, 7, 8, 9 :: nat]"
    by code_simp
  ultimately have m: "map digitVal ''0123456789'' = [0..<10]"
    by simp
  have k: "d mod 10 < length ''0123456789''"
    by simp
  have "digitVal (''0123456789'' ! (d mod 10)) = map digitVal ''0123456789'' ! (d mod 10)"
    using k by (simp only: nth_map)
  also have "\<dots> = d mod 10"
    unfolding m by simp
  finally show ?thesis by (simp only: digitChar_def)
qed

lemma natDigits_nonempty: "natDigits n \<noteq> []"
  by (subst natDigits.simps) simp

lemma natDigits_digits: "list_all isDigit (natDigits n)"
proof (induction n rule: natDigits.induct)
  case (1 n)
  show ?case
  proof (cases "n < 10")
    case True
    then show ?thesis by (subst natDigits.simps) (simp add: digitChar_digit)
  next
    case False
    then show ?thesis using 1 by (subst natDigits.simps) (simp add: digitChar_digit)
  qed
qed

lemma digitsVal_snoc: "digitsVal (ds @ [c]) = 10 * digitsVal ds + digitVal c"
  by (simp add: digitsVal_def)

lemma digitsVal_natDigits: "digitsVal (natDigits n) = n"
proof (induction n rule: natDigits.induct)
  case (1 n)
  show ?case
  proof (cases "n < 10")
    case True
    then show ?thesis
      by (subst natDigits.simps) (simp add: digitsVal_def digitVal_digitChar)
  next
    case False
    then have "digitsVal (natDigits (n div 10)) = n div 10" using 1 by simp
    then show ?thesis using False
      by (subst natDigits.simps) (simp add: digitsVal_snoc digitVal_digitChar)
  qed
qed

lemma digitsVal_zeros: "digitsVal (replicate z (CHR ''0'') @ ds) = digitsVal ds"
proof -
  have "foldl (\<lambda>acc c. 10 * acc + digitVal c) 0 (replicate z (CHR ''0'')) = 0"
    by (induction z) (simp_all add: digitVal_def)
  then show ?thesis by (simp add: digitsVal_def)
qed

lemma digit_first_not_NA: "isDigit c \<Longrightarrow> c # cs \<noteq> ''N/A''"
  by (auto simp: isDigit_def)

lemma natDigits_hd: "\<exists>c cs. natDigits n = c # cs \<and> isDigit c"
  using natDigits_nonempty [of n] natDigits_digits [of n]
  by (cases "natDigits n") simp_all

lemma exponentForm_not_NA: "exponentForm E x \<noteq> ''N/A''"
proof -
  obtain c cs where d: "natDigits (fst (shortestDigits E x)) = c # cs" "isDigit c"
    using natDigits_hd by blast
  then show ?thesis
    by (auto simp: exponentForm_def Let_def isDigit_def)
qed

lemma toFixed_8_finite:
  assumes "\<bar>x\<bar> < 10 ^ 21"
  shows "\<exists>ip fr. toFixed E 8 (Fin x) = (if x < 0 then ''-'' else []) @ ip @ ''.'' @ fr
           \<and> ip \<noteq> [] \<and> length fr = 8 \<and> list_all isDigit (ip @ fr)
           \<and> digitsVal (ip @ fr) = nat \<lfloor>\<bar>x\<bar> * 10 ^ 8 + 1 / 2\<rfloor>"
proof -
  define n where "n = nat \<lfloor>\<bar>x\<bar> * 10 ^ 8 + 1 / 2\<rfloor>"
  define m where "m = natDigits n"
  define m1 where "m1 = (if length m \<le> 8 then replicate (8 + 1 - length m) (CHR ''0'') @ m else m)"
  define k where "k = length m1"
  have k9: "9 \<le> k"
    by (auto simp: k_def m1_def)
  have digits: "list_all isDigit m1"
    using natDigits_digits [of n] by (auto simp: m1_def m_def isDigit_def list_all_iff)
  have val: "digitsVal m1 = n"
    by (simp add: m1_def m_def digitsVal_zeros digitsVal_natDigits)
  have eq: "toFixed E 8 (Fin x) = (if x < 0 then ''-'' else []) @ take (k - 8) m1 @ ''.'' @ drop (k - 8) m1"
    using assms by (simp add: toFixed_def Let_def n_def m_def m1_def k_def)
  have ip: "take (k - 8) m1 \<noteq> []"
    using k9 by (auto simp: k_def)
  have fr: "length (drop (k - 8) m1) = 8"
    using k9 by (simp add: k_def)
  have whole: "take (k - 8) m1 @ drop (k - 8) m1 = m1"
    by simp
  show ?thesis
  proof (intro exI conjI)
    show "toFixed E 8 (Fin x)
        = (if x < 0 then ''-'' else []) @ take (k - 8) m1 @ ''.'' @ drop (k - 8) m1"
      by (rule eq)
    show "take (k - 8) m1 \<noteq> []" by (rule ip)
    show "length (drop (k - 8) m1) = 8" by (rule fr)
    show "list_all isDigit (take (k - 8) m1 @ drop (k - 8) m1)"
      using digits by (simp only: whole)
    show "digitsVal (take (k - 8) m1 @ drop (k - 8) m1) = nat \<lfloor>\<bar>x\<bar> * 10 ^ 8 + 1 / 2\<rfloor>"
      using val by (simp only: whole n_def)
  qed
qed

lemma toFixed_8_not_NA: "toFixed E 8 v \<noteq> ''N/A''"
proof (cases v)
  case NaN
  then show ?thesis by (simp add: toFixed_def)
next
  case NegInf
  then show ?thesis by (simp add: toFixed_def)
next
  case PosInf
  then show ?thesis by (simp add: toFixed_def)
next
  case (Fin x)
  show ?thesis
  proof (cases "x < 0")
    case True
    then show ?thesis using Fin by (simp add: toFixed_def Let_def)
  next
    case nonneg: False
    show ?thesis
    proof (cases "\<bar>x\<bar> < 10 ^ 21")
      case True
      then obtain ip fr where r: "toFixed E 8 (Fin x) = ip @ ''.'' @ fr" "ip \<noteq> []"
        "list_all isDigit (ip @ fr)"
        using toFixed_8_finite [of x E] nonneg by auto
      then obtain c cs where "ip = c # cs" "isDigit c"
        by (cases ip) simp_all
      then show ?thesis using r Fin digit_first_not_NA [of c] by simp
    next
      case False
      then have "toFixed E 8 (Fin x) = exponentForm E \<bar>x\<bar>"
        using nonneg by (simp add: toFixed_def Let_def)
      then show ?thesis using Fin exponentForm_not_NA by simp
    qed
  qed
qed

lemma calculateFee_present:
  assumes "gasLimit tx = Some gl" "gasPrice tx = Some gp"
    and "\<not> isNaN (js_mul E (parseFloat E gl) (parseFloat E gp))"
  shows "calculateFee E tx = toFixed E 8 (js_mul E (parseFloat E gl) (parseFloat E gp))"
proof -
  have "gl \<noteq> []"
    using assms(3) by (auto simp: parseFloat_empty js_mul_NaN isNaN_def)
  moreover have "gp \<noteq> []"
    using assms(3) by (auto simp: parseFloat_empty js_mul_NaN isNaN_def)
  ultimately show ?thesis
    using assms by (simp add: calculateFee_def truthy_def Let_def)
qed

lemma calculateFee_NA_iff:
  "calculateFee E tx = ''N/A'' \<longleftrightarrow>
     gasLimit tx = None \<or> gasPrice tx = None
     \<or> (\<exists>gl gp. gasLimit tx = Some gl \<and> gasPrice tx = Some gp
           \<and> isNaN (js_mul E (parseFloat E gl) (parseFloat E gp)))"
proof (cases "gasLimit tx")
  case None
  then show ?thesis by (simp add: calculateFee_def)
next
  case gl: (Some gl)
  show ?thesis
  proof (cases "gasPrice tx")
    case None
    then show ?thesis using gl by (simp add: calculateFee_def)
  next
    case gp: (Some gp)
    show ?thesis
    proof (cases "isNaN (js_mul E (parseFloat E gl) (parseFloat E gp))")
      case True
      then show ?thesis using gl gp by (simp add: calculateFee_def Let_def)
    next
      case False
      then show ?thesis
        using gl gp calculateFee_present [OF gl gp False] toFixed_8_not_NA by simp
    qed
  qed
qed

lemma fee_rounding: "\<lfloor>84001 / 2 :: rat\<rfloor> = 42000"
  by code_simp

lemma natDigits_42000: "natDigits 42000 = ''42000''"
  by (simp add: natDigits.simps digitChar_def)

lemma toFixed_example: "toFixed E 8 (Fin (21 / 50000)) = ''0.00042000''"
proof -
  have z: "replicate 4 (CHR ''0'') = ''0000''"
    by (simp add: numeral_eq_Suc)
  have "(if length ''42000'' \<le> 8 then replicate (8 + 1 - length ''42000'') (CHR ''0'') @ ''42000''
         else ''42000'') = ''000042000''"
    by (simp add: z)
  then show ?thesis
    by (simp add: toFixed_def Let_def fee_rounding natDigits_42000)
qed

lemma fee_product_example:
  "js_mul utcEnv (parseFloat utcEnv ''21000'') (parseFloat utcEnv ''0.00000002'')
     = Fin (21 / 50000)"
  by (simp add: parse_defs utcEnv_def)

lemma fee_product_infinite:
  "js_mul utcEnv (parseFloat utcEnv ''Infinity'') (parseFloat utcEnv ''1'') = PosInf"
  by (simp add: parse_defs infTimes_def utcEnv_def)

section \<open>The claims\<close>

subsection \<open>Out-of-range pages\<close>

text \<open>
  C1, as the code has it: the page is not clamped. A page from 1 to \<open>totalPages\<close>
  shows its own non-empty slice, with \<open>showingFrom\<close> and \<open>showingTo\<close> its first and
  last position; a page beyond \<open>totalPages\<close> shows an empty slice.
\<close>

theorem page_is_not_clamped:
  "(1 \<le> currentPage s \<and> currentPage s \<le> totalPages E s \<longrightarrow>
      paginatedTransactions E s \<noteq> []
      \<and> paginatedTransactions E s
          = take 15 (drop (nat ((currentPage s - 1) * 15)) (filteredAndSortedTransactions E s))
      \<and> showingFrom E s = (currentPage s - 1) * 15 + 1
      \<and> showingTo E s
          = min (currentPage s * 15) (int (length (filteredAndSortedTransactions E s))))
   \<and> (totalPages E s < currentPage s \<longrightarrow> paginatedTransactions E s = [])"
  using page_within_total [of s E] page_beyond_total [of E s]
  by (simp add: showingTo_def itemsPerPage_def)

text \<open>
  Sixteen transactions make two pages. Page 2 is within range and page 3 is beyond it.
\<close>

theorem page_is_not_clamped_witness:
  "totalPages utcEnv ((loaded sixteen)\<lparr>currentPage := 2\<rparr>) = 2
   \<and> totalPages utcEnv ((loaded sixteen)\<lparr>currentPage := 3\<rparr>) = 2
   \<and> paginatedTransactions utcEnv ((loaded sixteen)\<lparr>currentPage := 2\<rparr>) \<noteq> []
   \<and> showingFrom utcEnv ((loaded sixteen)\<lparr>currentPage := 2\<rparr>) = 16
   \<and> showingTo utcEnv ((loaded sixteen)\<lparr>currentPage := 2\<rparr>) = 16
   \<and> paginatedTransactions utcEnv ((loaded sixteen)\<lparr>currentPage := 3\<rparr>) = []"
proof -
  have len: "length sixteen = 16" by (simp add: sixteen_def)
  have tp: "totalPages utcEnv ((loaded sixteen)\<lparr>currentPage := p\<rparr>) = 2" for p
    by (simp add: totalPages_def c1_sorted len pageCount_15_16 itemsPerPage_def)
  show ?thesis
    using page_is_not_clamped [of "(loaded sixteen)\<lparr>currentPage := 2\<rparr>" utcEnv]
          page_is_not_clamped [of "(loaded sixteen)\<lparr>currentPage := 3\<rparr>" utcEnv]
    by (simp add: tp c1_sorted len)
qed

text \<open>
  C1 as stated fails: with two pages, page 9999 shows nothing, though the last page
  holds the sixteenth transaction.
\<close>

theorem out_of_range_page_is_empty:
  "totalPages utcEnv ((loaded sixteen)\<lparr>currentPage := 9999\<rparr>) = 2
   \<and> paginatedTransactions utcEnv ((loaded sixteen)\<lparr>currentPage := 9999\<rparr>) = []
   \<and> paginatedTransactions utcEnv ((loaded sixteen)\<lparr>currentPage := 2\<rparr>) = [numbered 16]"
proof -
  have len: "length sixteen = 16" by (simp add: sixteen_def)
  show ?thesis
    by (simp add: totalPages_def paginatedTransactions_def c1_sorted len pageCount_15_16
        itemsPerPage_def pageSlice_def js_slice_def last_of_sixteen)
qed

subsection \<open>Resetting the page\<close>

text \<open>
  C3 fails on the code for the status filter and the date bounds. Forty transactions
  are loaded and Next is clicked twice, so the page is 3. Setting the status filter to
  \<open>pending\<close>, or a date bound, leaves the page at 3, while a click on a sort header,
  Clear Filters and the timeout of the search set it to 1. With the status filter
  \<open>pending\<close> the twenty pending transactions make two pages, and the table of page 3
  is empty.
\<close>

theorem status_change_keeps_page:
  "currentPage onPage3 = 3
   \<and> statusFilter (step utcEnv (SelectStatus ''pending'') onPage3) = ''pending''
   \<and> currentPage (step utcEnv (SelectStatus ''pending'') onPage3) = 3
   \<and> currentPage (step utcEnv (ChangeDateFrom ''2024-01-01'') onPage3) = 3
   \<and> currentPage (step utcEnv (ChangeDateTo ''2024-01-31'') onPage3) = 3
   \<and> currentPage (step utcEnv (ClickSort SortAmount) onPage3) = 1
   \<and> currentPage (step utcEnv ClickClearFilters onPage3) = 1
   \<and> currentPage (run utcEnv [TypeSearch ''0x'', DebounceTimeout] onPage3) = 1
   \<and> length (filteredAndSortedTransactions utcEnv (step utcEnv (SelectStatus ''pending'') onPage3))
       = 20
   \<and> totalPages utcEnv (step utcEnv (SelectStatus ''pending'') onPage3) = 2
   \<and> paginatedTransactions utcEnv (step utcEnv (SelectStatus ''pending'') onPage3) = []"
proof -
  define s where "s = step utcEnv (SelectStatus ''pending'') onPage3"
  have p3: "currentPage onPage3 = 3"
    by (simp add: onPage3_state)
  have s_eq: "s = (loaded forty)\<lparr>debounceTimer := True, currentPage := 3, statusFilter := ''pending''\<rparr>"
    by (simp add: s_def onPage3_state setStatusFilter_def)
  have cp: "currentPage s = 3"
    using handlers_that_keep_page(1) [of "''pending''" onPage3] p3 by (simp add: s_def)
  have sf: "statusFilter s = ''pending''"
    by (simp add: s_eq)
  have df: "currentPage (step utcEnv (ChangeDateFrom ''2024-01-01'') onPage3) = 3"
    using handlers_that_keep_page(2) [of "''2024-01-01''" onPage3] p3 by simp
  have dt: "currentPage (step utcEnv (ChangeDateTo ''2024-01-31'') onPage3) = 3"
    using handlers_that_keep_page(3) [of "''2024-01-31''" onPage3] p3 by simp
  have so: "currentPage (step utcEnv (ClickSort SortAmount) onPage3) = 1"
    using handlers_that_reset_page(1) [of SortAmount onPage3] onPage3_shown by simp
  have cl: "currentPage (step utcEnv ClickClearFilters onPage3) = 1"
    using handlers_that_reset_page(2) [of onPage3] by simp
  have "debounceTimer (setSearchQuery ''0x'' onPage3)"
    by (simp add: setSearchQuery_def onPage3_state loaded_def initialState_def)
  then have se: "currentPage (run utcEnv [TypeSearch ''0x'', DebounceTimeout] onPage3) = 1"
    using handlers_that_reset_page(3) [of "setSearchQuery ''0x'' onPage3"] by simp
  have f: "filteredTransactions utcEnv s = filter (\<lambda>tx. status_str (status tx) = ''pending'') forty"
    by (simp add: s_eq filteredTransactions_def statusStage_def dateFromStage_def dateToStage_def
        searchStage_def truthy_def loaded_def initialState_def)
  have len: "length (filteredAndSortedTransactions utcEnv s) = 20"
    by (simp add: length_filteredAndSorted f pending_of_forty)
  have tp: "totalPages utcEnv s = 2"
    by (simp add: totalPages_def itemsPerPage_def len pageCount_15_20)
  have "paginatedTransactions utcEnv s = []"
    by (rule page_beyond_total) (simp add: tp cp)
  then show ?thesis
    using p3 sf cp df dt so cl se len tp unfolding s_def by (intro conjI)
qed

subsection \<open>Pagination coverage\<close>

text \<open>
  C5: for every state and every page size of at least 1, the slices of the pages
  1 to the number of pages, concatenated in order, are the filtered and sorted list:
  each element once, none missing. The second part is the same for the component's
  own \<open>paginatedTransactions\<close> and \<open>totalPages\<close>.
\<close>

theorem pagination_covers:
  assumes "1 \<le> ps"
  shows "concat (map (\<lambda>p. pageSlice ps (int p) (filteredAndSortedTransactions E s))
                  [1..<Suc (nat (pageCount ps (length (filteredAndSortedTransactions E s))))])
           = filteredAndSortedTransactions E s
         \<and> concat (map (\<lambda>p. paginatedTransactions E (s\<lparr>currentPage := int p\<rparr>))
                  [1..<Suc (nat (totalPages E s))])
           = filteredAndSortedTransactions E s"
proof
  show "concat (map (\<lambda>p. pageSlice ps (int p) (filteredAndSortedTransactions E s))
                  [1..<Suc (nat (pageCount ps (length (filteredAndSortedTransactions E s))))])
           = filteredAndSortedTransactions E s"
    using assms by (rule pages_cover)
  have "concat (map (\<lambda>p. pageSlice itemsPerPage (int p) (filteredAndSortedTransactions E s))
          [1..<Suc (nat (pageCount itemsPerPage (length (filteredAndSortedTransactions E s))))])
        = filteredAndSortedTransactions E s"
    by (rule pages_cover) (simp add: itemsPerPage_def)
  then show "concat (map (\<lambda>p. paginatedTransactions E (s\<lparr>currentPage := int p\<rparr>))
                  [1..<Suc (nat (totalPages E s))])
           = filteredAndSortedTransactions E s"
    by (simp add: paginatedTransactions_def totalPages_def del: upt_Suc)
qed

text \<open>Sixteen transactions: three pages of size 7, two pages of the component.\<close>

theorem pagination_covers_witness:
  "(1::int) \<le> 7
   \<and> pageSlice 7 1 sixteen @ pageSlice 7 2 sixteen @ pageSlice 7 3 sixteen = sixteen
   \<and> paginatedTransactions utcEnv ((loaded sixteen)\<lparr>currentPage := 1\<rparr>)
       @ paginatedTransactions utcEnv ((loaded sixteen)\<lparr>currentPage := 2\<rparr>) = sixteen"
proof -
  have len: "length sixteen = 16" by (simp add: sixteen_def)
  have tp: "totalPages utcEnv (loaded sixteen) = 2"
    by (simp add: totalPages_def c1_sorted len pageCount_15_16 itemsPerPage_def)
  show ?thesis
    using pagination_covers [of 7 utcEnv "loaded sixteen"]
    by (simp add: c1_sorted len pageCount_7_16 tp upt_1_3 upt_1_4 del: upt_Suc)
qed

subsection \<open>Stability of the sort\<close>

text \<open>
  C6, as the code has it: the sort is stable where every sort key of the filtered list
  parses (every timestamp a valid date for the sort by date, every amount a finite number
  for the sort by amount; the sort by status has no other keys). Then, for every engine,
  state, sort field and transaction \<open>a\<close>, and for both sort orders, the transactions
  whose key compares equal to that of \<open>a\<close> stand in the sorted list in the order in
  which they stand in the filtered list; so two transactions \<open>a\<close> and \<open>b\<close>
  whose keys compare equal keep their relative order, whichever the sort order.
\<close>

theorem sort_is_stable:
  assumes "keysParse E f (filteredTransactions E s)"
  shows "(\<forall>ord. filter (\<lambda>t. comparison E f a t = Fin 0)
            (filteredAndSortedTransactions E (s\<lparr>sortField := f, sortOrder := ord\<rparr>))
          = filter (\<lambda>t. comparison E f a t = Fin 0) (filteredTransactions E s))
   \<and> (comparison E f a b = Fin 0 \<longrightarrow>
        (\<forall>ord. filter (\<lambda>t. t = a \<or> t = b)
               (filteredAndSortedTransactions E (s\<lparr>sortField := f, sortOrder := ord\<rparr>))
             = filter (\<lambda>t. t = a \<or> t = b) (filteredTransactions E s)))"
  using sorted_keeps_equal_keys [where E = E and f = f and a = a and s = s, OF assms]
    sorted_keeps_pair [where E = E and f = f and a = a and b = b and s = s] assms
  by simp

text \<open>
  Two transactions of one timestamp and a later one between them: sorted by date, the
  two keep their order, in the descending and in the ascending order.
\<close>

theorem sort_is_stable_witness:
  "keysParse utcEnv SortDate (filteredTransactions utcEnv (loaded [numbered 7, tx2, numbered 8]))
   \<and> comparison utcEnv SortDate (numbered 7) (numbered 8) = Fin 0
   \<and> filteredTransactions utcEnv (loaded [numbered 7, tx2, numbered 8])
       = [numbered 7, tx2, numbered 8]
   \<and> filter (\<lambda>t. t = numbered 7 \<or> t = numbered 8)
        (filteredAndSortedTransactions utcEnv
           ((loaded [numbered 7, tx2, numbered 8])\<lparr>sortField := SortDate, sortOrder := Desc\<rparr>))
       = [numbered 7, numbered 8]
   \<and> filter (\<lambda>t. t = numbered 7 \<or> t = numbered 8)
        (filteredAndSortedTransactions utcEnv
           ((loaded [numbered 7, tx2, numbered 8])\<lparr>sortField := SortDate, sortOrder := Asc\<rparr>))
       = [numbered 7, numbered 8]"
proof -
  have c: "comparison utcEnv SortDate (numbered 7) (numbered 8) = Fin 0"
    by (simp add: comparison_def numbered_timestamp date_defs utcEnv_def)
  have f: "filteredTransactions utcEnv (loaded [numbered 7, tx2, numbered 8])
       = [numbered 7, tx2, numbered 8]"
    by (simp add: no_filters loaded_def initialState_def)
  have k: "keysParse utcEnv SortDate (filteredTransactions utcEnv (loaded [numbered 7, tx2, numbered 8]))"
    unfolding f
    by (simp add: keysParse_def isFinite_def numbered_timestamp tx2_def date_defs utcEnv_def)
  have ne: "tx2 \<noteq> numbered 7" "tx2 \<noteq> numbered 8"
    by (simp_all add: tx2_def tx1_def numbered_def)
  have "filter (\<lambda>t. t = numbered 7 \<or> t = numbered 8) [numbered 7, tx2, numbered 8]
      = [numbered 7, numbered 8]"
    using ne by simp
  then show ?thesis
    using sort_is_stable [where E = utcEnv and f = SortDate and a = "numbered 7"
        and b = "numbered 8" and s = "loaded [numbered 7, tx2, numbered 8]", OF k] c f k
    by simp
qed

text \<open>
  C6 as stated fails on a list with a key that does not parse: the comparator is not
  consistent, the order is the engine's, and V8 sorts the amounts 0.1, 0.2, 3,
  \<open>invalid\<close>, 1, 0, 1 of \<open>P\<close>, \<open>Q\<close>, \<open>X\<close>, \<open>N\<close>, \<open>A\<close>, \<open>C\<close>,
  \<open>B\<close> in ascending order to \<open>C\<close>, \<open>P\<close>, \<open>Q\<close>, \<open>B\<close>, \<open>X\<close>, \<open>N\<close>,
  \<open>A\<close>: the equal amounts of \<open>A\<close> and \<open>B\<close> have changed places.
\<close>

theorem equal_amounts_swapped:
  "comparison utcEnv SortAmount (withAmount ''A'' ''1'') (withAmount ''B'' ''1'') = Fin 0
   \<and> filter (\<lambda>t. t = withAmount ''A'' ''1'' \<or> t = withAmount ''B'' ''1'')
        (filteredTransactions utcEnv (loaded seven))
       = [withAmount ''A'' ''1'', withAmount ''B'' ''1'']
   \<and> filter (\<lambda>t. t = withAmount ''A'' ''1'' \<or> t = withAmount ''B'' ''1'')
        (filteredAndSortedTransactions utcEnv
           ((loaded seven)\<lparr>sortField := SortAmount, sortOrder := Asc\<rparr>))
       = [withAmount ''B'' ''1'', withAmount ''A'' ''1'']
   \<and> map tx_id (filteredAndSortedTransactions utcEnv
           ((loaded seven)\<lparr>sortField := SortAmount, sortOrder := Asc\<rparr>))
       = [''C'', ''P'', ''Q'', ''B'', ''X'', ''N'', ''A'']
   \<and> \<not> keysParse utcEnv SortAmount (filteredTransactions utcEnv (loaded seven))"
proof -
  have c: "comparison utcEnv SortAmount (withAmount ''A'' ''1'') (withAmount ''B'' ''1'') = Fin 0"
    by (simp add: comparison_def withAmount_fields seven_amounts)
  have k: "\<not> keysParse utcEnv SortAmount (filteredTransactions utcEnv (loaded seven))"
    unfolding seven_unfiltered
    by (simp add: seven_def keysParse_def isFinite_def withAmount_fields seven_amounts)
  have ne: "withAmount i a = withAmount j b \<longleftrightarrow> i = j \<and> a = b" for i a j b
    by (auto simp: withAmount_def tx1_def)
  have i: "filter (\<lambda>t. t = withAmount ''A'' ''1'' \<or> t = withAmount ''B'' ''1'')
        (filteredTransactions utcEnv (loaded seven))
       = [withAmount ''A'' ''1'', withAmount ''B'' ''1'']"
    unfolding seven_unfiltered by (simp add: seven_def ne)
  have s: "filter (\<lambda>t. t = withAmount ''A'' ''1'' \<or> t = withAmount ''B'' ''1'')
        (filteredAndSortedTransactions utcEnv
           ((loaded seven)\<lparr>sortField := SortAmount, sortOrder := Asc\<rparr>))
       = [withAmount ''B'' ''1'', withAmount ''A'' ''1'']"
    by (simp add: seven_sorted ne)
  have m: "map tx_id (filteredAndSortedTransactions utcEnv
           ((loaded seven)\<lparr>sortField := SortAmount, sortOrder := Asc\<rparr>))
       = [''C'', ''P'', ''Q'', ''B'', ''X'', ''N'', ''A'']"
    by (simp add: seven_sorted withAmount_fields)
  show ?thesis
    using c i s m k by (intro conjI)
qed

subsection \<open>Sorting by amount\<close>




subsection \<open>The text search\<close>

text \<open>
  C4, as the code has it: the query is not trimmed. With the empty query the search
  keeps every transaction; with any other query, white space included, it keeps the
  transactions of which the lowercased hash, sender or recipient contains the lowercased
  query, in their order.
\<close>

theorem search_is_not_trimmed:
  "searchStage [] xs = xs
   \<and> (q \<noteq> [] \<longrightarrow>
        searchStage q xs
          = filter (\<lambda>tx. sublist (toLowerCase q) (toLowerCase (hash tx))
                        \<or> sublist (toLowerCase q) (toLowerCase (fromAddress tx))
                        \<or> sublist (toLowerCase q) (toLowerCase (toAddress tx))) xs)
   \<and> (debouncedSearch s = [] \<longrightarrow>
        filteredAndSortedTransactions E s
          = filteredAndSortedTransactions E (s\<lparr>debouncedSearch := []\<rparr>))
   \<and> (debouncedSearch s \<noteq> [] \<longrightarrow>
        (t \<in> set (filteredAndSortedTransactions E s) \<longleftrightarrow>
           t \<in> set (filteredAndSortedTransactions E (s\<lparr>debouncedSearch := []\<rparr>))
           \<and> (sublist (toLowerCase (debouncedSearch s)) (toLowerCase (hash t))
              \<or> sublist (toLowerCase (debouncedSearch s)) (toLowerCase (fromAddress t))
              \<or> sublist (toLowerCase (debouncedSearch s)) (toLowerCase (toAddress t)))))"
proof (intro conjI impI)
  show "searchStage [] xs = xs" by (rule searchStage_empty)
  show "searchStage q xs
          = filter (\<lambda>tx. sublist (toLowerCase q) (toLowerCase (hash tx))
                        \<or> sublist (toLowerCase q) (toLowerCase (fromAddress tx))
                        \<or> sublist (toLowerCase q) (toLowerCase (toAddress tx))) xs"
    if "q \<noteq> []" using that by (rule searchStage_nonempty)
  show "filteredAndSortedTransactions E s
          = filteredAndSortedTransactions E (s\<lparr>debouncedSearch := []\<rparr>)"
    if "debouncedSearch s = []"
    using that by (simp add: filteredAndSortedTransactions_def filteredTransactions_def)
  show "t \<in> set (filteredAndSortedTransactions E s) \<longleftrightarrow>
           t \<in> set (filteredAndSortedTransactions E (s\<lparr>debouncedSearch := []\<rparr>))
           \<and> (sublist (toLowerCase (debouncedSearch s)) (toLowerCase (hash t))
              \<or> sublist (toLowerCase (debouncedSearch s)) (toLowerCase (fromAddress t))
              \<or> sublist (toLowerCase (debouncedSearch s)) (toLowerCase (toAddress t)))"
    if "debouncedSearch s \<noteq> []"
  proof -
    have "set (filteredAndSortedTransactions E s)
        = set (searchStage (debouncedSearch s) (filteredTransactions E (s\<lparr>debouncedSearch := []\<rparr>)))"
      using filteredTransactions_search [of E s]
      by (simp add: filteredAndSortedTransactions_def set_array_sort)
    moreover have "set (filteredAndSortedTransactions E (s\<lparr>debouncedSearch := []\<rparr>))
        = set (filteredTransactions E (s\<lparr>debouncedSearch := []\<rparr>))"
      by (simp add: filteredAndSortedTransactions_def set_array_sort)
    ultimately show ?thesis
      using that by (auto simp: searchStage_nonempty)
  qed
qed

text \<open>The query \<open>0xabc\<close> keeps the hash \<open>0xABCdef123\<close> and drops \<open>0xdead\<close>.\<close>

theorem search_is_not_trimmed_witness:
  "''0xabc'' \<noteq> []
   \<and> searchStage ''0xabc'' [tx1, tx2] = [tx1]
   \<and> filter (\<lambda>tx. sublist (toLowerCase ''0xabc'') (toLowerCase (hash tx))
                 \<or> sublist (toLowerCase ''0xabc'') (toLowerCase (fromAddress tx))
                 \<or> sublist (toLowerCase ''0xabc'') (toLowerCase (toAddress tx))) [tx1, tx2]
      = [tx1]
   \<and> searchStage [] [tx1, tx2] = [tx1, tx2]"
proof -
  have r: "searchStage ''0xabc'' [tx1, tx2] = [tx1]"
    by (simp add: searchStage_def truthy_def string_defs tx1_def tx2_def)
  show ?thesis
    using search_is_not_trimmed [of "[tx1, tx2]" "''0xabc''" initialState utcEnv tx1] r
    by simp
qed

text \<open>
  C4 as stated fails: a query of one space is empty after trimming, and it removes both
  transactions, which the empty query keeps.
\<close>

theorem whitespace_query_filters:
  "dropWhile isWhiteSpace '' '' = []
   \<and> filteredAndSortedTransactions utcEnv ((loaded [tx1, tx2])\<lparr>debouncedSearch := '' ''\<rparr>) = []
   \<and> filteredAndSortedTransactions utcEnv ((loaded [tx1, tx2])\<lparr>debouncedSearch := []\<rparr>)
       = [tx2, tx1]"
  by (simp add: pipeline_defs date_defs string_defs isWhiteSpace_def loaded_def initialState_def
      utcEnv_def tx1_def tx2_def)

subsection \<open>Malformed fields\<close>

text \<open>
  C7, as the code has it: the pipeline has no failing step (the model has no error
  value: every operation of the source is defined on every string). Its result is a part
  of the transactions, and the page a contiguous part of the result; a transaction whose
  timestamp is not a date is left out whenever a date bound is set; an amount that does
  not parse makes the comparison \<open>NaN\<close>, which the sort reads as equal, not as a
  comparison with zero.
\<close>

theorem pipeline_keeps_going:
  "mset (filteredAndSortedTransactions E s) \<subseteq># mset (transactions s)
   \<and> (\<exists>before after.
         filteredAndSortedTransactions E s = before @ paginatedTransactions E s @ after)
   \<and> (isNaN (dateParse E (timestamp t)) \<and> (truthy (dateFrom s) \<or> truthy (dateTo s))
        \<longrightarrow> t \<notin> set (filteredAndSortedTransactions E s))
   \<and> (isNaN (parseFloat E (amount a))
        \<longrightarrow> isNaN (comparison E SortAmount a b) \<and> isNaN (comparison E SortAmount b a)
            \<and> SortCompare (compareFn E SortAmount ord) a b = Fin 0
            \<and> SortCompare (compareFn E SortAmount ord) b a = Fin 0)"
proof (intro conjI impI)
  show "mset (filteredAndSortedTransactions E s) \<subseteq># mset (transactions s)"
    by (simp add: filteredAndSortedTransactions_def mset_array_sort mset_filteredTransactions)
  show "\<exists>before after.
         filteredAndSortedTransactions E s = before @ paginatedTransactions E s @ after"
    unfolding paginatedTransactions_def pageSlice_def Let_def by (rule page_is_part)
  show "t \<notin> set (filteredAndSortedTransactions E s)"
    if "isNaN (dateParse E (timestamp t)) \<and> (truthy (dateFrom s) \<or> truthy (dateTo s))"
    using that invalid_date_filtered_out [of E t s]
    by (simp add: filteredAndSortedTransactions_def set_array_sort)
  assume n: "isNaN (parseFloat E (amount a))"
  show "isNaN (comparison E SortAmount a b)" "isNaN (comparison E SortAmount b a)"
    using comparison_NaN_amount [OF n, of b] by (simp_all add: isNaN_def)
  show "SortCompare (compareFn E SortAmount ord) a b = Fin 0"
       "SortCompare (compareFn E SortAmount ord) b a = Fin 0"
    using comparison_NaN_amount [OF n, of b] by (simp_all add: SortCompare_NaN)
qed

text \<open>
  With a lower date bound the transaction with the timestamp \<open>invalid\<close> is left out.
\<close>

theorem pipeline_keeps_going_witness:
  "isNaN (dateParse utcEnv (timestamp tx3))
   \<and> truthy (dateFrom ((loaded [tx1, tx3, tx2])\<lparr>dateFrom := ''2024-01-01''\<rparr>))
   \<and> tx3 \<notin> set (filteredAndSortedTransactions utcEnv
                    ((loaded [tx1, tx3, tx2])\<lparr>dateFrom := ''2024-01-01''\<rparr>))
   \<and> filteredAndSortedTransactions utcEnv ((loaded [tx1, tx3, tx2])\<lparr>dateFrom := ''2024-01-01''\<rparr>)
       = [tx2, tx1]
   \<and> isNaN (parseFloat utcEnv (amount tx3))
   \<and> isNaN (comparison utcEnv SortAmount tx3 tx1)"
proof -
  have d: "isNaN (dateParse utcEnv (timestamp tx3))"
    by (simp add: isNaN_def utcEnv_def tx3_def date_defs)
  have p: "isNaN (parseFloat utcEnv (amount tx3))"
    by (simp add: isNaN_def utcEnv_def tx3_def parse_defs)
  have tr: "truthy (dateFrom ((loaded [tx1, tx3, tx2])\<lparr>dateFrom := ''2024-01-01''\<rparr>))"
    by (simp add: truthy_def)
  have r: "filteredAndSortedTransactions utcEnv ((loaded [tx1, tx3, tx2])\<lparr>dateFrom := ''2024-01-01''\<rparr>)
       = [tx2, tx1]"
    by (simp add: pipeline_defs date_defs loaded_def initialState_def utcEnv_def tx1_def tx2_def tx3_def)
  show ?thesis
    using pipeline_keeps_going [of utcEnv "(loaded [tx1, tx3, tx2])\<lparr>dateFrom := ''2024-01-01''\<rparr>"
        tx3 tx3 tx1 Asc] d p tr r
    by simp
qed

text \<open>
  C7 as stated fails where it names zero as the default of numeric comparisons: sorted
  by amount, ascending, by the sort of V8, the list of amounts 1.5, \<open>invalid\<close>, 0.2
  stays as it is, where a zero default gives \<open>invalid\<close>, 0.2, 1.5.
\<close>

theorem malformed_amount_is_not_zero:
  "isNaN (parseFloat utcEnv (amount tx3))
   \<and> isNaN (comparison utcEnv SortAmount tx3 tx2)
   \<and> comparisonWithZeroDefault utcEnv tx3 tx2 = Fin (- 1 / 5)
   \<and> filteredAndSortedTransactions utcEnv
        ((loaded [tx1, tx3, tx2])\<lparr>sortField := SortAmount, sortOrder := Asc\<rparr>) = [tx1, tx3, tx2]
   \<and> array_sort utcEnv (comparisonWithZeroDefault utcEnv) [tx1, tx3, tx2] = [tx3, tx2, tx1]"
  by (simp add: pipeline_defs v8_defs zero_default_consistent parse_defs loaded_def
      initialState_def utcEnv_def tx1_def tx2_def tx3_def comparisonWithZeroDefault_def
      amountOrZero_def)

subsection \<open>The layout of the CSV\<close>

text \<open>
  C8: the result is the header line followed by one line per transaction, joined by
  line feeds; a line is the nine fields in the order of the header, joined by commas; a
  field that contains a double quote, a comma or a line feed is wrapped in double quotes
  with every double quote doubled, any other field is written as it is; a missing
  \<open>gasLimit\<close> or \<open>gasPrice\<close> is the empty field.
\<close>

theorem csv_layout:
  "transactionsToCsv rows
     = join [CHR 0x0A]
         (''id,hash,fromAddress,toAddress,amount,status,gasLimit,gasPrice,timestamp''
          # map (\<lambda>r. join '',''
                   (map (\<lambda>v. if CHR 0x22 \<in> set v \<or> CHR '','' \<in> set v \<or> CHR 0x0A \<in> set v
                              then [CHR 0x22]
                                   @ concat (map (\<lambda>c. if c = CHR 0x22 then [CHR 0x22, CHR 0x22]
                                                       else [c]) v)
                                   @ [CHR 0x22]
                              else v)
                     [tx_id r, hash r, fromAddress r, toAddress r, amount r,
                      status_str (status r),
                      (case gasLimit r of None \<Rightarrow> [] | Some g \<Rightarrow> g),
                      (case gasPrice r of None \<Rightarrow> [] | Some g \<Rightarrow> g),
                      timestamp r]))
              rows)"
proof -
  have row: "csvRow = (\<lambda>r. join '',''
                   (map (\<lambda>v. if CHR 0x22 \<in> set v \<or> CHR '','' \<in> set v \<or> CHR 0x0A \<in> set v
                              then [CHR 0x22]
                                   @ concat (map (\<lambda>c. if c = CHR 0x22 then [CHR 0x22, CHR 0x22]
                                                       else [c]) v)
                                   @ [CHR 0x22]
                              else v)
                     [tx_id r, hash r, fromAddress r, toAddress r, amount r,
                      status_str (status r),
                      (case gasLimit r of None \<Rightarrow> [] | Some g \<Rightarrow> g),
                      (case gasPrice r of None \<Rightarrow> [] | Some g \<Rightarrow> g),
                      timestamp r]))"
    unfolding csvRow_def Let_def orEmpty_def by (simp only: escapeCsv_Some list.map)
  show ?thesis
    unfolding transactionsToCsv_def Let_def foldl_push header_line
    by (simp only: row append_Cons append_Nil)
qed

text \<open>
  The cases of the repository's tests: no rows, rows with and without gas fields, a
  hash with a comma and a hash with double quotes.
\<close>

theorem csv_layout_witness:
  "transactionsToCsv []
     = ''id,hash,fromAddress,toAddress,amount,status,gasLimit,gasPrice,timestamp''
   \<and> transactionsToCsv [tx1, tx2]
     = ''id,hash,fromAddress,toAddress,amount,status,gasLimit,gasPrice,timestamp''
       @ [CHR 0x0A] @ ''1,0xABCdef123,0xfrom1,0xto1,1.5,confirmed,21000,0.00000002,2024-01-15T10:00:00Z''
       @ [CHR 0x0A] @ ''2,0xdead,0xdead,0xdead,0.2,pending,,,2024-01-15T11:00:00Z''
   \<and> transactionsToCsv [tx2\<lparr>hash := ''0x,test''\<rparr>]
     = ''id,hash,fromAddress,toAddress,amount,status,gasLimit,gasPrice,timestamp''
       @ [CHR 0x0A] @ ''2,'' @ [CHR 0x22] @ ''0x,test'' @ [CHR 0x22]
       @ '',0xdead,0xdead,0.2,pending,,,2024-01-15T11:00:00Z''
   \<and> transactionsToCsv [tx2\<lparr>hash := ''0x'' @ [CHR 0x22] @ ''quoted'' @ [CHR 0x22]\<rparr>]
     = ''id,hash,fromAddress,toAddress,amount,status,gasLimit,gasPrice,timestamp''
       @ [CHR 0x0A] @ ''2,'' @ [CHR 0x22] @ ''0x'' @ [CHR 0x22, CHR 0x22] @ ''quoted''
       @ [CHR 0x22, CHR 0x22, CHR 0x22]
       @ '',0xdead,0xdead,0.2,pending,,,2024-01-15T11:00:00Z''"
  by (simp only: csv_layout) (simp add: tx1_def tx2_def)

subsection \<open>The stored theme\<close>

text \<open>
  C9, as the code has it: where \<open>window\<close> and \<open>document\<close> are defined,
  \<open>getStoredTheme\<close> after \<open>applyTheme t\<close> is \<open>t\<close>; without \<open>document\<close>,
  \<open>applyTheme\<close> changes nothing; without \<open>window\<close>, \<open>getStoredTheme\<close> is
  \<open>null\<close>; and it is \<open>null\<close> whenever the stored value is neither \<open>light\<close> nor
  \<open>dark\<close>.
\<close>

theorem theme_round_trip:
  "(hasWindow h \<and> hasDocument h \<longrightarrow> getStoredTheme (applyTheme t h) = Some t)
   \<and> (\<not> hasDocument h \<longrightarrow> applyTheme t h = h)
   \<and> (\<not> hasWindow h \<longrightarrow> getStoredTheme h = None)
   \<and> (localStorage h THEME_KEY \<noteq> Some ''light'' \<and> localStorage h THEME_KEY \<noteq> Some ''dark''
        \<longrightarrow> getStoredTheme h = None)"
  by (cases t) (simp_all add: getStoredTheme_def applyTheme_def)

text \<open>In a browser both themes are read back, and the value \<open>blue\<close> is not.\<close>

theorem theme_round_trip_witness:
  "hasWindow browser \<and> hasDocument browser
   \<and> getStoredTheme (applyTheme Dark browser) = Some Dark
   \<and> getStoredTheme (applyTheme Light (applyTheme Dark browser)) = Some Light
   \<and> getStoredTheme (browser\<lparr>localStorage := [THEME_KEY \<mapsto> ''blue'']\<rparr>) = None
   \<and> getStoredTheme browser = None"
proof -
  have b: "hasWindow browser" "hasDocument browser"
    by (simp_all add: browser_def)
  have b2: "hasWindow (applyTheme Dark browser)" "hasDocument (applyTheme Dark browser)"
    by (simp_all add: browser_def applyTheme_def)
  show ?thesis
    using theme_round_trip [of browser Dark] theme_round_trip [of "applyTheme Dark browser" Light]
      theme_round_trip [of "browser\<lparr>localStorage := [THEME_KEY \<mapsto> ''blue'']\<rparr>" Dark]
      theme_round_trip [of browser Light] b b2
    by (simp add: browser_def)
qed

text \<open>
  C9 as stated fails on the server, where \<open>document\<close> is undefined: the theme is not
  stored, and not read back.
\<close>

theorem theme_lost_without_document:
  "getStoredTheme (applyTheme Dark server) = None
   \<and> applyTheme Dark server = server
   \<and> getStoredTheme (applyTheme Dark (server\<lparr>hasWindow := True\<rparr>)) = None"
  by (simp add: getStoredTheme_def applyTheme_def server_def)

subsection \<open>The fee\<close>

text \<open>
  C10, as the code has it: \<open>calculateFee\<close> has no failing step, and its result is
  \<open>N/A\<close> exactly when \<open>gasLimit\<close> is absent, \<open>gasPrice\<close> is absent, or the
  product of their \<open>parseFloat\<close> values is \<open>NaN\<close>. Otherwise the result is
  \<open>fee.toFixed(8)\<close>: for a product of magnitude below \<open>10^21\<close> a sign, digits, a
  point and eight digits, which read as the product times \<open>10^8\<close> rounded half up; for
  an infinite product \<open>Infinity\<close> or \<open>-Infinity\<close>.
\<close>

theorem fee_or_not_available:
  "(calculateFee E tx = ''N/A'' \<longleftrightarrow>
      gasLimit tx = None \<or> gasPrice tx = None
      \<or> (\<exists>gl gp. gasLimit tx = Some gl \<and> gasPrice tx = Some gp
            \<and> isNaN (js_mul E (parseFloat E gl) (parseFloat E gp))))
   \<and> (gasLimit tx = Some gl \<and> gasPrice tx = Some gp
        \<and> js_mul E (parseFloat E gl) (parseFloat E gp) = Fin x \<and> \<bar>x\<bar> < 10 ^ 21
        \<longrightarrow> (\<exists>ip fr. calculateFee E tx = (if x < 0 then ''-'' else []) @ ip @ ''.'' @ fr
               \<and> ip \<noteq> [] \<and> length fr = 8 \<and> list_all isDigit (ip @ fr)
               \<and> digitsVal (ip @ fr) = nat \<lfloor>\<bar>x\<bar> * 10 ^ 8 + 1 / 2\<rfloor>))
   \<and> (gasLimit tx = Some gl \<and> gasPrice tx = Some gp
        \<and> js_mul E (parseFloat E gl) (parseFloat E gp) = PosInf
        \<longrightarrow> calculateFee E tx = ''Infinity'')
   \<and> (gasLimit tx = Some gl \<and> gasPrice tx = Some gp
        \<and> js_mul E (parseFloat E gl) (parseFloat E gp) = NegInf
        \<longrightarrow> calculateFee E tx = ''-Infinity'')"
proof (intro conjI impI)
  show "calculateFee E tx = ''N/A'' \<longleftrightarrow>
      gasLimit tx = None \<or> gasPrice tx = None
      \<or> (\<exists>gl gp. gasLimit tx = Some gl \<and> gasPrice tx = Some gp
            \<and> isNaN (js_mul E (parseFloat E gl) (parseFloat E gp)))"
    by (rule calculateFee_NA_iff)
  show "\<exists>ip fr. calculateFee E tx = (if x < 0 then ''-'' else []) @ ip @ ''.'' @ fr
               \<and> ip \<noteq> [] \<and> length fr = 8 \<and> list_all isDigit (ip @ fr)
               \<and> digitsVal (ip @ fr) = nat \<lfloor>\<bar>x\<bar> * 10 ^ 8 + 1 / 2\<rfloor>"
    if "gasLimit tx = Some gl \<and> gasPrice tx = Some gp
        \<and> js_mul E (parseFloat E gl) (parseFloat E gp) = Fin x \<and> \<bar>x\<bar> < 10 ^ 21"
    using that calculateFee_present [of tx gl gp E] toFixed_8_finite [of x E]
    by (simp add: isNaN_def)
  show "calculateFee E tx = ''Infinity''"
    if "gasLimit tx = Some gl \<and> gasPrice tx = Some gp
        \<and> js_mul E (parseFloat E gl) (parseFloat E gp) = PosInf"
    using that calculateFee_present [of tx gl gp E] by (simp add: isNaN_def toFixed_def)
  show "calculateFee E tx = ''-Infinity''"
    if "gasLimit tx = Some gl \<and> gasPrice tx = Some gp
        \<and> js_mul E (parseFloat E gl) (parseFloat E gp) = NegInf"
    using that calculateFee_present [of tx gl gp E] by (simp add: isNaN_def toFixed_def)
qed

text \<open>
  The fee of 21000 times 0.00000002 is \<open>0.00042000\<close>; without a gas limit it is
  \<open>N/A\<close>; an infinite gas limit gives \<open>Infinity\<close>.
\<close>

theorem fee_or_not_available_witness:
  "gasLimit tx1 = Some ''21000'' \<and> gasPrice tx1 = Some ''0.00000002''
   \<and> js_mul utcEnv (parseFloat utcEnv ''21000'') (parseFloat utcEnv ''0.00000002'')
       = Fin (21 / 50000)
   \<and> calculateFee utcEnv tx1 = ''0.00042000''
   \<and> (\<exists>ip fr. calculateFee utcEnv tx1 = ip @ ''.'' @ fr \<and> length fr = 8
         \<and> digitsVal (ip @ fr) = 42000)
   \<and> gasLimit tx2 = None
   \<and> calculateFee utcEnv tx2 = ''N/A''
   \<and> calculateFee utcEnv tx3 = ''Infinity''"
proof -
  have g1: "gasLimit tx1 = Some ''21000''" "gasPrice tx1 = Some ''0.00000002''"
    by (simp_all add: tx1_def)
  note f1 = fee_product_example
  have r1: "calculateFee utcEnv tx1 = ''0.00042000''"
    using f1 by (simp add: calculateFee_def truthy_def isNaN_def tx1_def toFixed_example)
  have n: "nat \<lfloor>\<bar>21 / 50000 :: rat\<bar> * 10 ^ 8 + 1 / 2\<rfloor> = 42000"
    by (simp add: fee_rounding)
  have "\<exists>ip fr. calculateFee utcEnv tx1 = (if (21 / 50000 :: rat) < 0 then ''-'' else []) @ ip @ ''.'' @ fr
          \<and> ip \<noteq> [] \<and> length fr = 8 \<and> list_all isDigit (ip @ fr)
          \<and> digitsVal (ip @ fr) = nat \<lfloor>\<bar>21 / 50000 :: rat\<bar> * 10 ^ 8 + 1 / 2\<rfloor>"
    using fee_or_not_available [of utcEnv tx1 "''21000''" "''0.00000002''" "21 / 50000"] g1 f1
    by simp
  then have e: "\<exists>ip fr. calculateFee utcEnv tx1 = ip @ ''.'' @ fr \<and> length fr = 8
         \<and> digitsVal (ip @ fr) = 42000"
    unfolding n by auto
  have g2: "gasLimit tx2 = None" by (simp add: tx2_def)
  have r2: "calculateFee utcEnv tx2 = ''N/A''"
    using fee_or_not_available [of utcEnv tx2] g2 by simp
  have g3: "gasLimit tx3 = Some ''Infinity''" "gasPrice tx3 = Some ''1''"
    by (simp_all add: tx3_def)
  have r3: "calculateFee utcEnv tx3 = ''Infinity''"
    using fee_or_not_available [of utcEnv tx3 "''Infinity''" "''1''"] g3 fee_product_infinite
    by simp
  show ?thesis
    using g1 f1 r1 e g2 r2 r3 by (intro conjI)
qed

text \<open>
  C10 as stated fails: the gas limit \<open>Infinity\<close> and the gas price \<open>1\<close> have the
  product \<open>Infinity\<close>, which is a number, and the result has no decimal places.
\<close>

theorem infinite_fee_is_not_decimal:
  "gasLimit tx3 = Some ''Infinity'' \<and> gasPrice tx3 = Some ''1''
   \<and> js_mul utcEnv (parseFloat utcEnv ''Infinity'') (parseFloat utcEnv ''1'') = PosInf
   \<and> calculateFee utcEnv tx3 = ''Infinity''"
  using fee_product_infinite
  by (simp add: calculateFee_def truthy_def isNaN_def toFixed_def tx3_def)

end
